theory Spec2Isabelle
  imports Main "HOL-Library.Word"
begin

section \<open>Data model of \<^verbatim>\<open>lambda.h\<close> and \<^verbatim>\<open>parse.c\<close>\<close>

text \<open>
  Machine integers: \<^verbatim>\<open>uint8_t\<close> is \<open>8 word\<close>, \<^verbatim>\<open>uint32_t\<close> and \<^verbatim>\<open>int32_t\<close> share the
  representation \<open>32 word\<close> (read signed with \<open>sint\<close>, unsigned with \<open>unat\<close>).
  Node counts and array indices are natural numbers; the places where the C code
  truncates them to 32 bits are written out.
\<close>

type_synonym u8 = "8 word"
type_synonym u32 = "32 word"

text \<open>
  \<^verbatim>\<open>AstNode\<close> is a tag with a union of one 32-bit payload.  \<^verbatim>\<open>parse.c\<close> stores the tags
  \<^verbatim>\<open>ANT_VAR\<close>, \<^verbatim>\<open>ANT_CALL\<close>, \<^verbatim>\<open>ANT_BOUND\<close> and \<^verbatim>\<open>ANT_LAMBDA\<close>.  The header that is part of the
  sources declares only \<^verbatim>\<open>ANT_VAR = 1\<close> and \<^verbatim>\<open>ANT_CALL\<close>; the two other enumerators are used
  by \<^verbatim>\<open>parse.c\<close> and are taken here as two further, distinct tags.
\<close>

datatype AstNode =
    VAR (token: u32)
  | CALL (arg_size: u32)
  | BOUND (depth: u32)
  | LAMBDA

text \<open>The enumeration \<^verbatim>\<open>AstNodeType\<close> exactly as \<^verbatim>\<open>lambda.h\<close> declares it.\<close>

datatype AstNodeType = ANT_VAR | ANT_CALL

text \<open>
  Every way the program stops without returning.  \<open>DIE\<close> is the macro \<^verbatim>\<open>DIE_IF\<close> (and a
  failed \<^verbatim>\<open>assert\<close>): a message and an abort.  \<open>UB\<close> marks behaviour that C leaves
  undefined (a read or write outside an array, arithmetic on a null pointer); the model
  stops there and says so.
\<close>

datatype fatal =
    EmptyAstPostfix
  | EmptyAstRoot
  | NodesExhausted nat nat
  | BadErrorLoc nat
  | BadToken u32
  | BadDepth u32
  | BadLambdaCall
  | HugeArg nat
  | UnusedBytes string
  | BadTypeId nat
  | OverbigToken u32
  | AssertFailed string

datatype undefined_behaviour =
    NodeIndexOutOfRange nat
  | TypeIndexOutOfRange nat
  | BindingIndexOutOfRange nat
  | NullTypePointer
  | UnparserStackOverrun nat

datatype failure = DIE fatal | UB undefined_behaviour

text \<open>
  A syntax error: the offset \<^verbatim>\<open>zloc - ast->zsrc\<close> and which format string was used, with
  the text of its \<^verbatim>\<open>%.*s\<close> argument.  (The C code renders this as
  \<^verbatim>\<open>"<zname>:<offset>: Syntax error: <message>."\<close>.)
\<close>

datatype SyntaxMsg =
    MultiByteVarname string
  | MultiDigitNum string
  | LambdaNoClose string
  | ExpectedLambdaBody
  | InvalidDebruijn0
  | UnmatchedParen
  | ExpectedExpr

record SyntaxError =
  loc :: nat
  msg :: SyntaxMsg

text \<open>
  \<^verbatim>\<open>struct Ast\<close>.  \<open>error\<close> is the \<^verbatim>\<open>prev\<close>-linked list, newest error first; \<open>nodes\<close> holds
  the first \<^verbatim>\<open>nnodes\<close> slots of the flexible array, so \<^verbatim>\<open>nnodes\<close> is \<open>length (nodes ast)\<close>.
\<close>

record Ast =
  zname :: string
  zsrc :: string
  error :: "SyntaxError list"
  zsrc_len :: nat
  nnodes_alloced :: nat
  current_depth :: u32
  binding_depths :: "u32 list"
  nodes :: "AstNode list"

text \<open>
  A \<^verbatim>\<open>const char *\<close> into the source is the rest of the buffer from that position; the
  terminating NUL is the end of the list.  The null pointer is \<open>None\<close>.
\<close>

definition NUL :: char where
  "NUL = CHR 0x00"

definition deref :: "string \<Rightarrow> char" where
  "deref z = (case z of [] \<Rightarrow> NUL | c # _ \<Rightarrow> c)"

definition strlen :: "string \<Rightarrow> nat" where
  "strlen z = length (takeWhile (\<lambda>c. c \<noteq> NUL) z)"

definition ast_root :: "Ast \<Rightarrow> failure + nat" where
  "ast_root ast =
     (if length (nodes ast) = 0 then Inl (DIE EmptyAstRoot)
      else Inr (length (nodes ast) - 1))"

definition ast_postfix :: "Ast \<Rightarrow> failure + AstNode list \<times> nat" where
  "ast_postfix ast =
     (if length (nodes ast) = 0 then Inl (DIE EmptyAstPostfix)
      else Inr (nodes ast, length (nodes ast)))"

text \<open>\<^verbatim>\<open>ast_node_alloc(ast, 1)\<close> followed by the store through the returned pointer.\<close>

definition ast_node_alloc :: "Ast \<Rightarrow> nat \<Rightarrow> failure + nat" where
  "ast_node_alloc ast n =
     (let u = length (nodes ast); nu = u + n in
      if nu > nnodes_alloced ast then Inl (DIE (NodesExhausted nu (nnodes_alloced ast)))
      else Inr u)"

definition push_node :: "Ast \<Rightarrow> AstNode \<Rightarrow> failure + Ast" where
  "push_node ast nd =
     (case ast_node_alloc ast 1 of
        Inl e \<Rightarrow> Inl e
      | Inr u \<Rightarrow> Inr (ast\<lparr>nodes := nodes ast @ [nd]\<rparr>))"

definition add_syntax_error :: "Ast \<Rightarrow> string \<Rightarrow> SyntaxMsg \<Rightarrow> failure + Ast" where
  "add_syntax_error ast zloc m =
     (let n = length (zsrc ast) - length zloc in
      if n > zsrc_len ast then Inl (DIE (BadErrorLoc n))
      else Inr (ast\<lparr>error := \<lparr>loc = n, msg = m\<rparr> # error ast\<rparr>))"

subsection \<open>Lexing\<close>

fun eat_white :: "string \<Rightarrow> string" where
  "eat_white [] = []"
| "eat_white (ch # z) =
     (if ch = CHR '' '' \<or> ch = CHR 0x09 \<or> ch = CHR 0x0A then eat_white z else ch # z)"

definition idx_from_letter :: "char \<Rightarrow> u8" where
  "idx_from_letter c = of_char c - of_char CHR ''a''"

definition idx_from_digit :: "char \<Rightarrow> u8" where
  "idx_from_digit c = of_char c - of_char CHR ''0''"

text \<open>
  The lexers return the token written through \<^verbatim>\<open>idxptr\<close> (\<open>-1\<close> when nothing was lexed)
  and the position reached.
\<close>

definition lex_varname :: "Ast \<Rightarrow> string \<Rightarrow> failure + Ast \<times> u32 \<times> string" where
  "lex_varname ast z0 =
     (let idx = idx_from_letter (deref z0) in
      if idx \<ge> 26 then Inr (ast, - 1, z0)
      else
        let z = tl z0 in
        if idx_from_letter (deref z) \<ge> 26 then Inr (ast, ucast idx, z)
        else
          let zE = dropWhile (\<lambda>c. idx_from_letter c < 26) z in
          case add_syntax_error ast z0 (MultiByteVarname (take (length z0 - length zE) z0)) of
            Inl e \<Rightarrow> Inl e
          | Inr ast' \<Rightarrow> Inr (ast', ucast idx, zE))"

definition lex_int :: "Ast \<Rightarrow> string \<Rightarrow> failure + Ast \<times> u32 \<times> string" where
  "lex_int ast z0 =
     (let idx = idx_from_digit (deref z0) in
      if idx \<ge> 10 then Inr (ast, - 1, z0)
      else
        let z = tl z0 in
        if idx_from_digit (deref z) \<ge> 10 then Inr (ast, ucast idx, z)
        else
          let zE = dropWhile (\<lambda>c. idx_from_digit c < 10) z in
          case add_syntax_error ast z0 (MultiDigitNum (take (length z0 - length zE) z0)) of
            Inl e \<Rightarrow> Inl e
          | Inr ast' \<Rightarrow> Inr (ast', ucast idx, zE))"

subsection \<open>Emitting nodes\<close>

text \<open>
  \<^verbatim>\<open>DIE_IF(token + 'a' > 'z', ...)\<close> is a comparison of \<^verbatim>\<open>int\<close>s: the token is read
  signed.  The store \<^verbatim>\<open>.VAR = {.token = token}\<close> converts it to \<^verbatim>\<open>uint32_t\<close>, which keeps
  the bits.
\<close>

definition push_varname :: "Ast \<Rightarrow> u32 \<Rightarrow> failure + Ast" where
  "push_varname ast tok =
     (if sint tok + 97 > 122 then Inl (DIE (BadToken tok))
      else push_node ast (VAR tok))"

definition push_bound :: "Ast \<Rightarrow> u32 \<Rightarrow> failure + Ast" where
  "push_bound ast d =
     (if sint d < 0 then Inl (DIE (BadDepth d))
      else push_node ast (BOUND d))"

text \<open>
  \<^verbatim>\<open>push_var\<close> reads \<^verbatim>\<open>ast->binding_depths[token]\<close>; a token outside \<open>0..25\<close> that passes
  the guard (a negative one) would read outside the array.
\<close>

definition push_var :: "Ast \<Rightarrow> u32 \<Rightarrow> failure + Ast" where
  "push_var ast tok =
     (if sint tok + 97 > 122 then Inl (DIE (BadToken tok))
      else if sint tok < 0 \<or> unat tok \<ge> length (binding_depths ast)
        then Inl (UB (BindingIndexOutOfRange (unat tok)))
      else
        let bdepth = binding_depths ast ! unat tok in
        if bdepth \<noteq> 0 then push_bound ast (current_depth ast - bdepth)
        else push_varname ast tok)"

subsection \<open>The recursive-descent parser\<close>

text \<open>
  \<^verbatim>\<open>parse_expr\<close>, \<^verbatim>\<open>parse_non_call_expr\<close> and \<^verbatim>\<open>parse_lambda\<close> call each other, and
  \<^verbatim>\<open>parse_expr\<close> has two loops.  Each call and each loop iteration takes one unit of
  fuel; \<open>None\<close> means the fuel ran out.  The result is the updated \<^verbatim>\<open>Ast\<close> and the
  returned pointer.  The body of each C function is a definition of its own, in which
  the functions it calls are the parameters \<open>p_...\<close>; the recursion on the fuel below
  passes the functions themselves.

  \<open>parse_expr_first\<close> is the \<^verbatim>\<open>while\<close> loop of \<^verbatim>\<open>parse_expr\<close> (with \<open>z0\<close> the position
  the error is reported at and \<open>z1\<close> the loop variable), \<open>parse_expr_calls\<close> its
  \<^verbatim>\<open>for (;;)\<close> loop.
\<close>

type_synonym parse_result = "(failure + Ast \<times> string option) option"
type_synonym parser = "Ast \<Rightarrow> string \<Rightarrow> parse_result"

definition parse_expr_first_body ::
  "parser \<Rightarrow> parser \<Rightarrow> (Ast \<Rightarrow> string \<Rightarrow> string \<Rightarrow> parse_result) \<Rightarrow>
   Ast \<Rightarrow> string \<Rightarrow> string \<Rightarrow> parse_result" where
  "parse_expr_first_body p_non_call_expr p_calls p_again ast z0 z1 =
     (case p_non_call_expr ast z1 of
        None \<Rightarrow> None
      | Some (Inl e) \<Rightarrow> Some (Inl e)
      | Some (Inr (ast1, Some z)) \<Rightarrow> p_calls ast1 z
      | Some (Inr (ast1, None)) \<Rightarrow>
          (case (if error ast1 = [] then add_syntax_error ast1 z0 ExpectedExpr else Inr ast1) of
             Inl e \<Rightarrow> Some (Inl e)
           | Inr ast2 \<Rightarrow>
               if deref z1 = NUL then Some (Inr (ast2, None))
               else p_again ast2 z0 (eat_white (tl z1))))"

definition parse_expr_calls_body :: "parser \<Rightarrow> parser \<Rightarrow> Ast \<Rightarrow> string \<Rightarrow> parse_result" where
  "parse_expr_calls_body p_non_call_expr p_again ast z =
     (case ast_root ast of
        Inl e \<Rightarrow> Some (Inl e)
      | Inr func \<Rightarrow>
          let z' = eat_white z in
          (case p_non_call_expr ast z' of
             None \<Rightarrow> None
           | Some (Inl e) \<Rightarrow> Some (Inl e)
           | Some (Inr (ast1, r)) \<Rightarrow>
               (case ast_root ast1 of
                  Inl e \<Rightarrow> Some (Inl e)
                | Inr root \<Rightarrow>
                    let arg_size = root - func in
                    (case r of
                       None \<Rightarrow> Some (Inr (ast1, Some z'))
                     | Some z1 \<Rightarrow>
                         if arg_size > 2147483647 then Some (Inl (DIE (HugeArg arg_size)))
                         else
                           (case push_node ast1 (CALL (of_nat arg_size)) of
                              Inl e \<Rightarrow> Some (Inl e)
                            | Inr ast2 \<Rightarrow> p_again ast2 z1)))))"

definition parse_non_call_expr_body :: "parser \<Rightarrow> parser \<Rightarrow> Ast \<Rightarrow> string \<Rightarrow> parse_result" where
  "parse_non_call_expr_body p_expr p_lambda ast z0 =
     (case lex_varname ast z0 of
        Inl e \<Rightarrow> Some (Inl e)
      | Inr (ast1, tok, zE) \<Rightarrow>
          if 0 \<le> sint tok then
            (case push_var ast1 tok of
               Inl e \<Rightarrow> Some (Inl e)
             | Inr ast2 \<Rightarrow> Some (Inr (ast2, Some zE)))
          else
            (case lex_int ast1 z0 of
               Inl e \<Rightarrow> Some (Inl e)
             | Inr (ast2, tok, zE) \<Rightarrow>
                 if 0 \<le> sint tok then
                   (case (if tok = 0
                          then (case add_syntax_error ast2 z0 InvalidDebruijn0 of
                                  Inl e \<Rightarrow> Inl e
                                | Inr ast3 \<Rightarrow> Inr (ast3, tok + 1))
                          else Inr (ast2, tok)) of
                      Inl e \<Rightarrow> Some (Inl e)
                    | Inr (ast3, tok') \<Rightarrow>
                        (case push_bound ast3 (tok' - 1) of
                           Inl e \<Rightarrow> Some (Inl e)
                         | Inr ast4 \<Rightarrow> Some (Inr (ast4, Some zE))))
                 else if deref z0 = CHR ''(''
                 then
                   (case p_expr ast2 (tl z0) of
                      None \<Rightarrow> None
                    | Some (Inl e) \<Rightarrow> Some (Inl e)
                    | Some (Inr (ast3, None)) \<Rightarrow>
                        (case add_syntax_error ast3 z0 UnmatchedParen of
                           Inl e \<Rightarrow> Some (Inl e)
                         | Inr ast4 \<Rightarrow> Some (Inr (ast4, None)))
                    | Some (Inr (ast3, Some zE')) \<Rightarrow>
                        if deref zE' \<noteq> CHR '')''
                        then
                          (case add_syntax_error ast3 z0 UnmatchedParen of
                             Inl e \<Rightarrow> Some (Inl e)
                           | Inr ast4 \<Rightarrow> Some (Inr (ast4, Some zE')))
                        else Some (Inr (ast3, Some (tl zE'))))
                 else if deref z0 = CHR ''[''
                 then p_lambda ast2 z0
                 else Some (Inr (ast2, None))))"

definition parse_lambda_body :: "parser \<Rightarrow> Ast \<Rightarrow> string \<Rightarrow> parse_result" where
  "parse_lambda_body p_non_call_expr ast z0 =
     (if deref z0 \<noteq> CHR ''['' then Some (Inl (DIE BadLambdaCall))
      else
        (case lex_varname ast (eat_white (tl z0)) of
           Inl e \<Rightarrow> Some (Inl e)
         | Inr (ast1, tok, zE0) \<Rightarrow>
             let zE1 = eat_white zE0 in
             (case (if deref zE1 = CHR '']'' then Inr (ast1, tl zE1)
                    else
                      let n = (length z0 - length zE1) + (if deref zE1 \<noteq> NUL then 1 else 0) in
                      (case add_syntax_error ast1 z0 (LambdaNoClose (take n z0)) of
                         Inl e \<Rightarrow> Inl e
                       | Inr ast2 \<Rightarrow> Inr (ast2, zE1))) of
                Inl e \<Rightarrow> Some (Inl e)
              | Inr (ast2, zE) \<Rightarrow>
                  let inner_depth = current_depth ast2 + 1;
                      prev_bound = (if 0 \<le> sint tok then binding_depths ast2 ! unat tok else 0);
                      ast3 = ast2\<lparr>current_depth := inner_depth,
                                  binding_depths :=
                                    (if 0 \<le> sint tok
                                     then (binding_depths ast2)[unat tok := inner_depth]
                                     else binding_depths ast2)\<rparr>
                  in
                  (case p_non_call_expr ast3 zE of
                     None \<Rightarrow> None
                   | Some (Inl e) \<Rightarrow> Some (Inl e)
                   | Some (Inr (ast4, None)) \<Rightarrow>
                       (case add_syntax_error ast4 zE ExpectedLambdaBody of
                          Inl e \<Rightarrow> Some (Inl e)
                        | Inr ast5 \<Rightarrow> Some (Inr (ast5, None)))
                   | Some (Inr (ast4, Some zE')) \<Rightarrow>
                       (case ast_root ast4 of
                          Inl e \<Rightarrow> Some (Inl e)
                        | Inr body \<Rightarrow>
                            let ast5 = ast4\<lparr>current_depth := inner_depth - 1,
                                            binding_depths :=
                                              (if 0 \<le> sint tok
                                               then (binding_depths ast4)[unat tok := prev_bound]
                                               else binding_depths ast4)\<rparr>
                            in
                            (case push_varname ast5 tok of
                               Inl e \<Rightarrow> Some (Inl e)
                             | Inr ast6 \<Rightarrow>
                                 (case push_node ast6 LAMBDA of
                                    Inl e \<Rightarrow> Some (Inl e)
                                  | Inr ast7 \<Rightarrow>
                                      if length (nodes ast7) - 1 - body \<noteq> 2
                                      then Some (Inl (DIE (AssertFailed ''pn - body == 2'')))
                                      else Some (Inr (ast7, Some zE')))))))))"

fun parse_expr :: "nat \<Rightarrow> Ast \<Rightarrow> string \<Rightarrow> parse_result"
  and parse_expr_first :: "nat \<Rightarrow> Ast \<Rightarrow> string \<Rightarrow> string \<Rightarrow> parse_result"
  and parse_expr_calls :: "nat \<Rightarrow> Ast \<Rightarrow> string \<Rightarrow> parse_result"
  and parse_non_call_expr :: "nat \<Rightarrow> Ast \<Rightarrow> string \<Rightarrow> parse_result"
  and parse_lambda :: "nat \<Rightarrow> Ast \<Rightarrow> string \<Rightarrow> parse_result"
where
  "parse_expr 0 = (\<lambda>ast z0. None)"
| "parse_expr (Suc f) = (\<lambda>ast z0. parse_expr_first f ast z0 (eat_white z0))"
| "parse_expr_first 0 = (\<lambda>ast z0 z1. None)"
| "parse_expr_first (Suc f) =
     parse_expr_first_body (parse_non_call_expr f) (parse_expr_calls f) (parse_expr_first f)"
| "parse_expr_calls 0 = (\<lambda>ast z. None)"
| "parse_expr_calls (Suc f) =
     parse_expr_calls_body (parse_non_call_expr f) (parse_expr_calls f)"
| "parse_non_call_expr 0 = (\<lambda>ast z0. None)"
| "parse_non_call_expr (Suc f) =
     parse_non_call_expr_body (parse_expr f) (parse_lambda f)"
| "parse_lambda 0 = (\<lambda>ast z0. None)"
| "parse_lambda (Suc f) = parse_lambda_body (parse_non_call_expr f)"

text \<open>
  \<^verbatim>\<open>parse\<close>: the capacity is \<^verbatim>\<open>strlen(zsrc) + 8\<close> nodes, stored in 32-bit fields; all other
  fields start at zero.
\<close>

definition new_ast :: "string \<Rightarrow> string \<Rightarrow> Ast" where
  "new_ast name src =
     \<lparr>zname = name, zsrc = src, error = [],
      zsrc_len = (strlen src + 8) mod 2 ^ 32,
      nnodes_alloced = (strlen src + 8) mod 2 ^ 32,
      current_depth = 0,
      binding_depths = replicate 26 0,
      nodes = []\<rparr>"

definition parse :: "nat \<Rightarrow> string \<Rightarrow> string \<Rightarrow> (failure + Ast) option" where
  "parse fuel name src =
     (case parse_expr fuel (new_ast name src) src of
        None \<Rightarrow> None
      | Some (Inl e) \<Rightarrow> Some (Inl e)
      | Some (Inr (ast, None)) \<Rightarrow> Some (Inr ast)
      | Some (Inr (ast, Some zE)) \<Rightarrow>
          if deref zE \<noteq> NUL then Some (Inl (DIE (UnusedBytes (take 10 zE))))
          else Some (Inr ast))"

section \<open>Type inference: \<^verbatim>\<open>type.c\<close>\<close>

text \<open>
  \<^verbatim>\<open>struct Type\<close>: the three pointers point into the array \<^verbatim>\<open>types\<close>, so they are indices
  of that array; \<^verbatim>\<open>arg_t\<close> and \<^verbatim>\<open>ret_t\<close> may be null.
\<close>

record Type =
  master_t :: nat
  arg_t :: "nat option"
  ret_t :: "nat option"

record TypeTree =
  postfix :: "AstNode list"
  tree_size :: nat
  bindings :: "nat option list"
  types :: "Type list"

definition MAX_TOKS :: nat where
  "MAX_TOKS = 26"

definition MAX_DEPTH :: nat where
  "MAX_DEPTH = 16"

text \<open>
  \<^verbatim>\<open>ast_unpack\<close> from \<^verbatim>\<open>lambda.h\<close>: the tag and the value written through \<^verbatim>\<open>val\<close>.  The
  subtraction is \<^verbatim>\<open>uint32_t\<close> arithmetic.  A read outside the nodes in use stops the
  model (the spare slots of the allocation are zero-filled, so there \<^verbatim>\<open>ast_unpack\<close> dies
  on tag 0; past the allocation the read is undefined).
\<close>

definition ast_unpack :: "AstNode list \<Rightarrow> u32 \<Rightarrow> failure + AstNodeType \<times> u32" where
  "ast_unpack nds idx =
     (if unat idx \<ge> length nds then Inl (UB (NodeIndexOutOfRange (unat idx)))
      else
        (case nds ! unat idx of
           CALL s \<Rightarrow> Inr (ANT_CALL, idx - s - 1)
         | VAR t \<Rightarrow> Inr (ANT_VAR, t)
         | BOUND d \<Rightarrow> Inl (DIE (BadTypeId (unat idx)))
         | LAMBDA \<Rightarrow> Inl (DIE (BadTypeId (unat idx)))))"

definition ast_arg_idx :: "AstNode list \<Rightarrow> nat \<Rightarrow> nat" where
  "ast_arg_idx nds call_idx = call_idx - 1"

text \<open>
  \<^verbatim>\<open>pmasterise\<close> follows the master pointers to the representative and compresses the
  path on the way back.  It recurses once per pointer followed; on a cycle of masters
  the C function never returns, and the model runs out of fuel.
\<close>

fun pmasterise :: "nat \<Rightarrow> Type list \<Rightarrow> nat \<Rightarrow> (failure + Type list \<times> nat) option" where
  "pmasterise 0 tys t = None"
| "pmasterise (Suc f) tys t =
     (if t \<ge> length tys then Some (Inl (UB (TypeIndexOutOfRange t)))
      else
        let m = master_t (tys ! t) in
        if m = t then Some (Inr (tys, t))
        else
          (case pmasterise f tys m of
             None \<Rightarrow> None
           | Some (Inl e) \<Rightarrow> Some (Inl e)
           | Some (Inr (tys', r)) \<Rightarrow>
               Some (Inr (tys'[t := (tys' ! t)\<lparr>master_t := r\<rparr>], r))))"

definition masterise :: "nat \<Rightarrow> Type list \<Rightarrow> nat \<Rightarrow> (failure + Type list \<times> nat) option" where
  "masterise f tys idx = pmasterise f tys idx"

text \<open>
  \<^verbatim>\<open>print_typename\<close>: the \<^verbatim>\<open>while\<close> loop that unwraps calls, then the letter and \<open>k\<close>
  times \<^verbatim>\<open>'r'\<close>.  The result is the text written to the stream.
\<close>

fun print_typename_loop :: "nat \<Rightarrow> AstNode list \<Rightarrow> u32 \<Rightarrow> nat \<Rightarrow> (failure + u32 \<times> nat) option" where
  "print_typename_loop 0 exprs val k = None"
| "print_typename_loop (Suc f) exprs val k =
     (case ast_unpack exprs val of
        Inl e \<Rightarrow> Some (Inl e)
      | Inr (ANT_CALL, val') \<Rightarrow> print_typename_loop f exprs val' (k + 1)
      | Inr (ANT_VAR, val') \<Rightarrow> Some (Inr (val', k)))"

definition print_typename :: "nat \<Rightarrow> AstNode list \<Rightarrow> nat \<Rightarrow> (failure + string) option" where
  "print_typename f exprs idx =
     (case print_typename_loop f exprs (of_nat idx) 0 of
        None \<Rightarrow> None
      | Some (Inl e) \<Rightarrow> Some (Inl e)
      | Some (Inr (val, k)) \<Rightarrow>
          Some (Inr (char_of (unat (val + 65)) # replicate k CHR ''r'')))"

subsection \<open>The unifier\<close>

type_synonym unifier = "TypeTree \<Rightarrow> nat \<Rightarrow> nat \<Rightarrow> (failure + TypeTree) option"

definition unify_body :: "nat \<Rightarrow> unifier \<Rightarrow> unifier" where
  "unify_body f p_unify ttree ia ib =
     (if ia = ib then Some (Inr ttree)
      else
        (case masterise f (types ttree) ia of
           None \<Rightarrow> None
         | Some (Inl e) \<Rightarrow> Some (Inl e)
         | Some (Inr (tys1, ia')) \<Rightarrow>
             (case masterise f tys1 ib of
                None \<Rightarrow> None
              | Some (Inl e) \<Rightarrow> Some (Inl e)
              | Some (Inr (tys2, ib')) \<Rightarrow>
                  let a = tys2 ! ia'; b = tys2 ! ib' in
                  if arg_t a = None \<and> arg_t b \<noteq> None then
                    let tys3 = tys2[ia' := b\<lparr>master_t := ia'\<rparr>];
                        tys4 = tys3[ib' := \<lparr>master_t = ia', arg_t = None, ret_t = None\<rparr>]
                    in
                    (case masterise f tys4 ib' of
                       None \<Rightarrow> None
                     | Some (Inl e) \<Rightarrow> Some (Inl e)
                     | Some (Inr (tys5, m)) \<Rightarrow> Some (Inr (ttree\<lparr>types := tys5\<rparr>)))
                  else
                    let tys3 = tys2[ib' := (tys2 ! ib')\<lparr>master_t := ia'\<rparr>] in
                    (case masterise f tys3 ib' of
                       None \<Rightarrow> None
                     | Some (Inl e) \<Rightarrow> Some (Inl e)
                     | Some (Inr (tys4, m)) \<Rightarrow>
                         if arg_t b = None then Some (Inr (ttree\<lparr>types := tys4\<rparr>))
                         else
                           (case (arg_t a, arg_t b, ret_t a, ret_t b) of
                              (Some aa, Some ba, Some ar, Some br) \<Rightarrow>
                                (case p_unify (ttree\<lparr>types := tys4\<rparr>) aa ba of
                                   None \<Rightarrow> None
                                 | Some (Inl e) \<Rightarrow> Some (Inl e)
                                 | Some (Inr ttree') \<Rightarrow> p_unify ttree' ar br)
                            | (Some aa, Some ba, _, _) \<Rightarrow>
                                (case p_unify (ttree\<lparr>types := tys4\<rparr>) aa ba of
                                   None \<Rightarrow> None
                                 | Some (Inl e) \<Rightarrow> Some (Inl e)
                                 | Some (Inr ttree') \<Rightarrow> Some (Inl (UB NullTypePointer)))
                            | _ \<Rightarrow> Some (Inl (UB NullTypePointer)))))))"

fun unify :: "nat \<Rightarrow> unifier" where
  "unify 0 = (\<lambda>ttree ia ib. None)"
| "unify (Suc f) = unify_body f (unify f)"

definition coerce_to_fun_type :: "nat \<Rightarrow> TypeTree \<Rightarrow> nat \<Rightarrow> nat \<Rightarrow> (failure + TypeTree) option" where
  "coerce_to_fun_type f ttree ifun icall =
     (if \<not> ifun < icall then Some (Inl (DIE (AssertFailed ''ifun < icall'')))
      else
        let iarg = ast_arg_idx (postfix ttree) icall; iret = icall in
        (case masterise f (types ttree) ifun of
           None \<Rightarrow> None
         | Some (Inl e) \<Rightarrow> Some (Inl e)
         | Some (Inr (tys1, ifun')) \<Rightarrow>
             let fun = tys1 ! ifun' in
             (case arg_t fun of
                Some fa \<Rightarrow>
                  (case unify f (ttree\<lparr>types := tys1\<rparr>) fa iarg of
                     None \<Rightarrow> None
                   | Some (Inl e) \<Rightarrow> Some (Inl e)
                   | Some (Inr ttree') \<Rightarrow>
                       (case ret_t fun of
                          None \<Rightarrow> Some (Inl (UB NullTypePointer))
                        | Some fr \<Rightarrow> unify f ttree' fr icall))
              | None \<Rightarrow>
                  (case masterise f tys1 iarg of
                     None \<Rightarrow> None
                   | Some (Inl e) \<Rightarrow> Some (Inl e)
                   | Some (Inr (tys2, ma)) \<Rightarrow>
                       let tys3 = tys2[ifun' := (tys2 ! ifun')\<lparr>arg_t := Some ma\<rparr>] in
                       (case masterise f tys3 iret of
                          None \<Rightarrow> None
                        | Some (Inl e) \<Rightarrow> Some (Inl e)
                        | Some (Inr (tys4, mr)) \<Rightarrow>
                            Some (Inr (ttree\<lparr>types :=
                              tys4[ifun' := (tys4 ! ifun')\<lparr>ret_t := Some mr\<rparr>]\<rparr>)))))))"

text \<open>
  One iteration of the loop of \<^verbatim>\<open>solve_types\<close>, for the node at index \<open>k\<close>.  The guard is
  \<^verbatim>\<open>val > MAX_TOKS\<close>, so the value 26 passes it and indexes \<^verbatim>\<open>bindings\<close> one past its end.
\<close>

definition solve_types_step :: "nat \<Rightarrow> TypeTree \<Rightarrow> nat \<Rightarrow> (failure + TypeTree) option" where
  "solve_types_step f ttree k =
     (case ast_unpack (postfix ttree) (of_nat k) of
        Inl e \<Rightarrow> Some (Inl e)
      | Inr (ANT_VAR, val) \<Rightarrow>
          if unat val > MAX_TOKS then Some (Inl (DIE (OverbigToken val)))
          else if unat val \<ge> length (bindings ttree)
            then Some (Inl (UB (BindingIndexOutOfRange (unat val))))
          else
            (case bindings ttree ! unat val of
               Some b \<Rightarrow> Some (Inr (ttree\<lparr>types := (types ttree)[k := types ttree ! b]\<rparr>))
             | None \<Rightarrow> Some (Inr (ttree\<lparr>bindings := (bindings ttree)[unat val := Some k]\<rparr>)))
      | Inr (ANT_CALL, val) \<Rightarrow> coerce_to_fun_type f ttree (unat val) k)"

fun solve_types_loop :: "nat \<Rightarrow> TypeTree \<Rightarrow> nat list \<Rightarrow> (failure + TypeTree) option" where
  "solve_types_loop f ttree [] = Some (Inr ttree)"
| "solve_types_loop f ttree (k # ks) =
     (case solve_types_step f ttree k of
        None \<Rightarrow> None
      | Some (Inl e) \<Rightarrow> Some (Inl e)
      | Some (Inr ttree') \<Rightarrow> solve_types_loop f ttree' ks)"

definition solve_types :: "nat \<Rightarrow> TypeTree \<Rightarrow> (failure + TypeTree) option" where
  "solve_types f ttree = solve_types_loop f ttree [0..<tree_size ttree]"

definition build_type_tree :: "nat \<Rightarrow> Ast \<Rightarrow> (failure + TypeTree) option" where
  "build_type_tree f ast =
     (case ast_postfix ast of
        Inl e \<Rightarrow> Some (Inl e)
      | Inr (pf, sz) \<Rightarrow>
          solve_types f
            \<lparr>postfix = pf, tree_size = sz, bindings = replicate MAX_TOKS None,
             types = map (\<lambda>k. \<lparr>master_t = k, arg_t = None, ret_t = None\<rparr>) [0..<sz]\<rparr>)"

subsection \<open>The type printer\<close>

text \<open>
  \<^verbatim>\<open>Unparser\<close>: \<open>oot\<close> is the text written to the stream so far, \<open>stack\<close> the array of
  \<^verbatim>\<open>MAX_DEPTH\<close> pointers (null at the start, since the struct is initialised with
  designated initialisers).
\<close>

record Unparser =
  oot :: string
  exprs :: "AstNode list"
  utypes :: "Type list"
  udepth :: nat
  stack :: "nat option list"

text \<open>
  \<^verbatim>\<open>unparse_push\<close> has no test of \<open>depth\<close> against \<^verbatim>\<open>MAX_DEPTH\<close>: with the stack full, the
  store \<^verbatim>\<open>unp->stack[depth] = type\<close> writes past the end of the array.
\<close>

text \<open>The search loop of \<^verbatim>\<open>unparse_push\<close>: \<^verbatim>\<open>while (k--) if (unp->stack[k] == type) ...\<close>.\<close>

fun on_stack :: "nat option list \<Rightarrow> nat \<Rightarrow> nat \<Rightarrow> bool" where
  "on_stack st 0 ty = False"
| "on_stack st (Suc k) ty = (if st ! k = Some ty then True else on_stack st k ty)"

definition unparse_push :: "Unparser \<Rightarrow> nat \<Rightarrow> failure + Unparser \<times> bool" where
  "unparse_push unp ty =
     (if master_t (utypes unp ! ty) \<noteq> ty
        then Inl (DIE (AssertFailed ''type == type->master_t''))
      else if on_stack (stack unp) (udepth unp) ty then Inr (unp, False)
      else if udepth unp \<ge> length (stack unp)
        then Inl (UB (UnparserStackOverrun (udepth unp)))
      else Inr (unp\<lparr>stack := (stack unp)[udepth unp := Some ty],
                      udepth := udepth unp + 1\<rparr>, True))"

definition unparse_pop :: "Unparser \<Rightarrow> failure + Unparser" where
  "unparse_pop unp =
     (if int (udepth unp) - 1 < 0 then Inl (DIE (AssertFailed ''depth >= 0''))
      else Inr (unp\<lparr>udepth := udepth unp - 1\<rparr>))"

type_synonym unparser = "Unparser \<Rightarrow> nat \<Rightarrow> (failure + Unparser) option"

definition unparse_type_body :: "nat \<Rightarrow> unparser \<Rightarrow> unparser" where
  "unparse_type_body f p_unparse unp t =
     (case masterise f (utypes unp) t of
        None \<Rightarrow> None
      | Some (Inl e) \<Rightarrow> Some (Inl e)
      | Some (Inr (tys, idx)) \<Rightarrow>
          (case print_typename f (exprs unp) idx of
             None \<Rightarrow> None
           | Some (Inl e) \<Rightarrow> Some (Inl e)
           | Some (Inr name) \<Rightarrow>
               let unp1 = unp\<lparr>utypes := tys, oot := oot unp @ name\<rparr>;
                   ty = tys ! master_t (tys ! idx)
               in
               (case arg_t ty of
                  None \<Rightarrow> Some (Inr unp1)
                | Some ta \<Rightarrow>
                    (case unparse_push unp1 idx of
                       Inl e \<Rightarrow> Some (Inl e)
                     | Inr (unp2, False) \<Rightarrow> Some (Inr unp2)
                     | Inr (unp2, True) \<Rightarrow>
                         (case p_unparse (unp2\<lparr>oot := oot unp2 @ ''=(''\<rparr>) ta of
                            None \<Rightarrow> None
                          | Some (Inl e) \<Rightarrow> Some (Inl e)
                          | Some (Inr unp3) \<Rightarrow>
                              (case ret_t ty of
                                 None \<Rightarrow> Some (Inl (UB NullTypePointer))
                               | Some tr \<Rightarrow>
                                   (case p_unparse (unp3\<lparr>oot := oot unp3 @ '' ''\<rparr>) tr of
                                      None \<Rightarrow> None
                                    | Some (Inl e) \<Rightarrow> Some (Inl e)
                                    | Some (Inr unp4) \<Rightarrow>
                                        (case unparse_pop (unp4\<lparr>oot := oot unp4 @ '')''\<rparr>) of
                                           Inl e \<Rightarrow> Some (Inl e)
                                         | Inr unp5 \<Rightarrow> Some (Inr unp5)))))))))"

text \<open>\<^verbatim>\<open>unparse_type_\<close> of the C source (a name cannot end in an underscore here).\<close>

fun unparse_type_' :: "nat \<Rightarrow> unparser" where
  "unparse_type_' 0 = (\<lambda>unp t. None)"
| "unparse_type_' (Suc f) = unparse_type_body f (unparse_type_' f)"

text \<open>
  \<^verbatim>\<open>unparse_type\<close> prints one slot with a fresh \<^verbatim>\<open>Unparser\<close>; the array \<^verbatim>\<open>tree->types\<close> is
  shared, so the path compression done while printing stays in the tree.
\<close>

definition unparse_type :: "nat \<Rightarrow> string \<Rightarrow> TypeTree \<Rightarrow> nat \<Rightarrow> (failure + string \<times> TypeTree) option" where
  "unparse_type f out tree t =
     (case unparse_type_' f
             \<lparr>oot = out, exprs = postfix tree, utypes = types tree, udepth = 0,
              stack = replicate MAX_DEPTH None\<rparr> t of
        None \<Rightarrow> None
      | Some (Inl e) \<Rightarrow> Some (Inl e)
      | Some (Inr unp) \<Rightarrow> Some (Inr (oot unp, tree\<lparr>types := utypes unp\<rparr>)))"

fun act_type_loop :: "nat \<Rightarrow> string \<Rightarrow> TypeTree \<Rightarrow> nat list \<Rightarrow> (failure + string) option" where
  "act_type_loop f out ttree [] = Some (Inr out)"
| "act_type_loop f out ttree (k # ks) =
     (case unparse_type f out ttree k of
        None \<Rightarrow> None
      | Some (Inl e) \<Rightarrow> Some (Inl e)
      | Some (Inr (out', ttree')) \<Rightarrow> act_type_loop f (out' @ [CHR 0x0A]) ttree' ks)"

text \<open>\<^verbatim>\<open>act_type\<close>: the result is everything written to the stream.\<close>

definition act_type :: "nat \<Rightarrow> Ast \<Rightarrow> (failure + string) option" where
  "act_type f ast =
     (case build_type_tree f ast of
        None \<Rightarrow> None
      | Some (Inl e) \<Rightarrow> Some (Inl e)
      | Some (Inr ttree) \<Rightarrow> act_type_loop f [] ttree [0..<tree_size ttree])"

section \<open>Re-printing an expression\<close>




section \<open>Expressions and their postfix layout\<close>

text \<open>
  The expression that a run of nodes stands for, and the run of nodes of an
  expression: the function, then the argument, then the call; the body of a lambda,
  then the name of its parameter, then the marker.
\<close>

datatype expr =
    EVar u32
  | EBound u32
  | ELambda expr u32
  | ECall expr expr

fun postfix_of :: "expr \<Rightarrow> AstNode list" where
  "postfix_of (EVar t) = [VAR t]"
| "postfix_of (EBound d) = [BOUND d]"
| "postfix_of (ELambda b t) = postfix_of b @ [VAR t, LAMBDA]"
| "postfix_of (ECall fn a) = postfix_of fn @ postfix_of a @ [CALL (of_nat (length (postfix_of a)))]"

text \<open>All argument subtrees are small enough for the 32-bit field (\<^verbatim>\<open>INT32_MAX\<close>).\<close>

fun small_args :: "expr \<Rightarrow> bool" where
  "small_args (EVar t) = True"
| "small_args (EBound d) = True"
| "small_args (ELambda b t) = small_args b"
| "small_args (ECall fn a) =
     (small_args fn \<and> small_args a \<and> length (postfix_of a) \<le> 2147483647)"

text \<open>
  \<open>span nds i\<close> is the number of slots of the subtree whose root is slot \<open>i\<close>, found
  from the layout alone: a variable is one slot; a lambda is its marker, the name slot
  before it and the body that ends two slots before it; a call is its own slot, the
  argument subtree that ends at \<open>i - 1\<close> and the function subtree that ends just before
  the argument.  \<open>None\<close> when the slots do not form a subtree.
\<close>

fun span :: "AstNode list \<Rightarrow> nat \<Rightarrow> nat option" where
  "span nds i =
     (if i \<ge> length nds then None
      else
        (case nds ! i of
           VAR t \<Rightarrow> Some 1
         | BOUND d \<Rightarrow> Some 1
         | LAMBDA \<Rightarrow>
             (if i < 2 then None
              else
                (case nds ! (i - 1) of
                   VAR t \<Rightarrow>
                     (case span nds (i - 2) of
                        None \<Rightarrow> None
                      | Some b \<Rightarrow> Some (b + 2))
                 | _ \<Rightarrow> None))
         | CALL s \<Rightarrow>
             (if i = 0 then None
              else
                (case span nds (i - 1) of
                   None \<Rightarrow> None
                 | Some a \<Rightarrow>
                     (if i < a + 1 then None
                      else
                        (case span nds (i - 1 - a) of
                           None \<Rightarrow> None
                         | Some c \<Rightarrow> Some (c + a + 1)))))))"


fun app_only :: "expr \<Rightarrow> bool" where
  "app_only (EVar t) = (unat t < 26)"
| "app_only (ECall fn a) = (app_only fn \<and> app_only a)"
| "app_only (EBound d) = False"
| "app_only (ELambda b t) = False"


text \<open>
  What a parsing function may do to the node sequence.  \<open>emits_expr\<close>: when it returns
  the null pointer it has added no node, and when it returns a position it has appended
  the nodes of exactly one expression.  \<open>extends_call\<close>, for the loop of applications:
  when the nodes end with an expression, they end with one (longer) expression afterwards
  and the result is never the null pointer.
\<close>

definition emits_expr :: "parser \<Rightarrow> bool" where
  "emits_expr p \<longleftrightarrow>
     (\<forall>ast z ast' r. p ast z = Some (Inr (ast', r)) \<longrightarrow>
        (case r of
           None \<Rightarrow> nodes ast' = nodes ast
         | Some z' \<Rightarrow> (\<exists>e. small_args e \<and> nodes ast' = nodes ast @ postfix_of e)))"

definition extends_call :: "parser \<Rightarrow> bool" where
  "extends_call p \<longleftrightarrow>
     (\<forall>ast z ast' r pre e. p ast z = Some (Inr (ast', r)) \<longrightarrow>
        nodes ast = pre @ postfix_of e \<longrightarrow> small_args e \<longrightarrow>
        r \<noteq> None \<and> (\<exists>e'. small_args e' \<and> nodes ast' = pre @ postfix_of e'))"

section \<open>Unfolding the fuel\<close>

text \<open>
  The defining equations of the fuel-indexed functions are used applied to all their
  arguments, for a successor and for a numeral.
\<close>

declare parse_expr.simps [simp del] parse_expr_first.simps [simp del] parse_expr_calls.simps [simp del]
  parse_non_call_expr.simps [simp del] parse_lambda.simps [simp del] unify.simps [simp del] unparse_type_'.simps [simp del]

lemma parse_expr_fuel:
  "parse_expr 0 ast z0 = None"
  "parse_expr (Suc f) ast z0 = parse_expr_first f ast z0 (eat_white z0)"
  "parse_expr (numeral n) ast z0 = parse_expr_first (pred_numeral n) ast z0 (eat_white z0)"
  by (simp_all add: numeral_eq_Suc parse_expr.simps)

lemma parse_expr_first_fuel:
  "parse_expr_first 0 ast z0 z1 = None"
  "parse_expr_first (Suc f) ast z0 z1 =
     parse_expr_first_body (parse_non_call_expr f) (parse_expr_calls f) (parse_expr_first f) ast z0 z1"
  "parse_expr_first (numeral n) ast z0 z1 =
     parse_expr_first_body (parse_non_call_expr (pred_numeral n)) (parse_expr_calls (pred_numeral n))
       (parse_expr_first (pred_numeral n)) ast z0 z1"
  by (simp_all add: numeral_eq_Suc parse_expr_first.simps)

lemma parse_expr_calls_fuel:
  "parse_expr_calls 0 ast z = None"
  "parse_expr_calls (Suc f) ast z =
     parse_expr_calls_body (parse_non_call_expr f) (parse_expr_calls f) ast z"
  "parse_expr_calls (numeral n) ast z =
     parse_expr_calls_body (parse_non_call_expr (pred_numeral n)) (parse_expr_calls (pred_numeral n)) ast z"
  by (simp_all add: numeral_eq_Suc parse_expr_calls.simps)

lemma parse_non_call_expr_fuel:
  "parse_non_call_expr 0 ast z = None"
  "parse_non_call_expr (Suc f) ast z =
     parse_non_call_expr_body (parse_expr f) (parse_lambda f) ast z"
  "parse_non_call_expr (numeral n) ast z =
     parse_non_call_expr_body (parse_expr (pred_numeral n)) (parse_lambda (pred_numeral n)) ast z"
  by (simp_all add: numeral_eq_Suc parse_non_call_expr.simps)

lemma parse_lambda_fuel:
  "parse_lambda 0 ast z = None"
  "parse_lambda (Suc f) ast z = parse_lambda_body (parse_non_call_expr f) ast z"
  "parse_lambda (numeral n) ast z = parse_lambda_body (parse_non_call_expr (pred_numeral n)) ast z"
  by (simp_all add: numeral_eq_Suc parse_lambda.simps)

lemma pmasterise_numeral:
  "pmasterise (numeral n) tys t = 
     (if t \<ge> length tys then Some (Inl (UB (TypeIndexOutOfRange t)))
      else
        let m = master_t (tys ! t) in
        if m = t then Some (Inr (tys, t))
        else
          (case pmasterise (pred_numeral n) tys m of
             None \<Rightarrow> None
           | Some (Inl e) \<Rightarrow> Some (Inl e)
           | Some (Inr (tys', r)) \<Rightarrow>
               Some (Inr (tys'[t := (tys' ! t)\<lparr>master_t := r\<rparr>], r))))"
  by (simp add: numeral_eq_Suc)

lemma print_typename_loop_numeral:
  "print_typename_loop (numeral n) es val k =
     (case ast_unpack es val of
        Inl e \<Rightarrow> Some (Inl e)
      | Inr (ANT_CALL, val') \<Rightarrow> print_typename_loop (pred_numeral n) es val' (k + 1)
      | Inr (ANT_VAR, val') \<Rightarrow> Some (Inr (val', k)))"
  by (simp add: numeral_eq_Suc)

lemma unify_fuel:
  "unify 0 ttree ia ib = None"
  "unify (Suc f) ttree ia ib = unify_body f (unify f) ttree ia ib"
  "unify (numeral n) ttree ia ib = unify_body (pred_numeral n) (unify (pred_numeral n)) ttree ia ib"
  by (simp_all add: numeral_eq_Suc unify.simps)

lemma unparse_type_fuel:
  "unparse_type_' 0 unp t = None"
  "unparse_type_' (Suc f) unp t = unparse_type_body f (unparse_type_' f) unp t"
  "unparse_type_' (numeral n) unp t =
     unparse_type_body (pred_numeral n) (unparse_type_' (pred_numeral n)) unp t"
  by (simp_all add: numeral_eq_Suc unparse_type_'.simps)


lemma replicate_numeral_unfold: "replicate (numeral k) x = x # replicate (pred_numeral k) x"
  by (simp add: numeral_eq_Suc)

section \<open>Evaluation on concrete programs\<close>

lemma unat_m1_32: "unat (- 1 :: 32 word) = 4294967295"
  by (simp add: unsigned_minus_1_eq_mask mask_eq_exp_minus_1)

lemma m1_32: "(- 1 :: 32 word) = 4294967295"
  by simp

lemmas parse_eval = parse_def new_ast_def strlen_def NUL_def Let_def
   parse_expr_fuel parse_expr_first_fuel parse_expr_calls_fuel parse_non_call_expr_fuel parse_lambda_fuel
   parse_expr_first_body_def parse_expr_calls_body_def parse_non_call_expr_body_def parse_lambda_body_def
   lex_varname_def lex_int_def deref_def idx_from_letter_def idx_from_digit_def push_var_def
   push_varname_def push_bound_def push_node_def ast_node_alloc_def add_syntax_error_def ast_root_def
   word_le_nat_alt word_less_nat_alt

lemmas type_eval = act_type_def build_type_tree_def solve_types_def solve_types_step_def
  coerce_to_fun_type_def unify_body_def masterise_def ast_unpack_def ast_arg_idx_def ast_postfix_def
  print_typename_def unparse_type_def unparse_type_body_def unparse_push_def unparse_pop_def
  MAX_TOKS_def MAX_DEPTH_def Let_def pmasterise_numeral print_typename_loop_numeral unify_fuel unparse_type_fuel
  upt_rec_numeral replicate_numeral_unfold unat_m1_32 char_of_eq_iff


section \<open>Empty sources and the index 0\<close>

lemma eat_white_all_white:
  "set z \<subseteq> {CHR '' '', CHR 0x09, CHR 0x0A} \<Longrightarrow> eat_white z = []"
  by (induction z) auto

lemma parse_non_call_expr_at_NUL:
  "parse_non_call_expr (Suc f) ast [] = Some (Inr (ast, None))"
  by (simp add: parse_non_call_expr_fuel parse_non_call_expr_body_def lex_varname_def lex_int_def
      deref_def NUL_def idx_from_letter_def idx_from_digit_def word_le_nat_alt)

lemma act_type_empty:
  "nodes ast = [] \<Longrightarrow> act_type g ast = Some (Inl (DIE EmptyAstPostfix))"
  by (simp add: act_type_def build_type_tree_def ast_postfix_def)

text \<open>
  Claim C10.  For a source that is empty or consists of blanks, tabs and newlines only,
  \<^verbatim>\<open>parse\<close> returns (three units of fuel are enough) an \<^verbatim>\<open>Ast\<close> with no nodes and
  exactly one syntax error, "Expected expr" at offset 0.  \<^verbatim>\<open>ast_postfix\<close> and \<^verbatim>\<open>ast_root\<close>
  die on that \<^verbatim>\<open>Ast\<close>, and so does \<^verbatim>\<open>act_type\<close>, whatever its fuel: it aborts instead of
  printing nothing.
\<close>

theorem C10_empty_source:
  assumes "set src \<subseteq> {CHR '' '', CHR 0x09, CHR 0x0A}"
  shows "\<exists>ast. parse (Suc (Suc (Suc f))) name src = Some (Inr ast)
           \<and> nodes ast = []
           \<and> error ast = [\<lparr>loc = 0, msg = ExpectedExpr\<rparr>]
           \<and> ast_postfix ast = Inl (DIE EmptyAstPostfix)
           \<and> ast_root ast = Inl (DIE EmptyAstRoot)
           \<and> (\<forall>g. act_type g ast = Some (Inl (DIE EmptyAstPostfix)))"
proof -
  have white: "eat_white src = []"
    using assms by (rule eat_white_all_white)
  have "parse (Suc (Suc (Suc f))) name src =
          Some (Inr ((new_ast name src)\<lparr>error := [\<lparr>loc = 0, msg = ExpectedExpr\<rparr>]\<rparr>))"
    by (simp add: parse_def parse_expr_fuel parse_expr_first_fuel parse_expr_first_body_def white
        parse_non_call_expr_at_NUL add_syntax_error_def new_ast_def deref_def)
  then show ?thesis
    by (simp add: new_ast_def ast_postfix_def ast_root_def act_type_empty)
qed

theorem C10_empty_source_witness:
  "set [CHR '' '', CHR 0x09, CHR 0x0A] \<subseteq> {CHR '' '', CHR 0x09, CHR 0x0A}
   \<and> (\<exists>ast. parse (Suc (Suc (Suc 0))) ''prog'' [CHR '' '', CHR 0x09, CHR 0x0A] = Some (Inr ast)
           \<and> nodes ast = []
           \<and> error ast = [\<lparr>loc = 0, msg = ExpectedExpr\<rparr>]
           \<and> ast_postfix ast = Inl (DIE EmptyAstPostfix)
           \<and> ast_root ast = Inl (DIE EmptyAstRoot)
           \<and> (\<forall>g. act_type g ast = Some (Inl (DIE EmptyAstPostfix))))"
  using C10_empty_source [of "[CHR '' '', CHR 0x09, CHR 0x0A]" 0 "''prog''"] by simp

text \<open>
  Claim C7.  At the digit \<^verbatim>\<open>0\<close> (not followed by another digit) \<^verbatim>\<open>parse_non_call_expr\<close>
  records the syntax error "0 is an invalid debrujin index" at the digit's offset,
  emits the node \<open>BOUND 0\<close>, the very node it emits for the digit \<^verbatim>\<open>1\<close>, and returns the
  position just after the one digit.  Parsing goes on from there: the programs
  \<^verbatim>\<open>0 x\<close> and \<^verbatim>\<open>1 x\<close> yield the same three nodes, the first with that one error, the
  second with none.
\<close>

theorem C7_zero_index:
  assumes "idx_from_digit (deref z) \<ge> 10"
    and "length (nodes ast) < nnodes_alloced ast"
    and "length (zsrc ast) - Suc (length z) \<le> zsrc_len ast"
  shows "parse_non_call_expr (Suc f) ast (CHR ''0'' # z) =
           Some (Inr (ast\<lparr>error := \<lparr>loc = length (zsrc ast) - Suc (length z),
                                     msg = InvalidDebruijn0\<rparr> # error ast,
                          nodes := nodes ast @ [BOUND 0]\<rparr>, Some z))
       \<and> parse_non_call_expr (Suc f) ast (CHR ''1'' # z) =
           Some (Inr (ast\<lparr>nodes := nodes ast @ [BOUND 0]\<rparr>, Some z))
       \<and> (\<exists>ast0. parse 10 ''prog'' ''0 x'' = Some (Inr ast0)
             \<and> nodes ast0 = [BOUND 0, VAR 23, CALL 1]
             \<and> error ast0 = [\<lparr>loc = 0, msg = InvalidDebruijn0\<rparr>])
       \<and> (\<exists>ast1. parse 10 ''prog'' ''1 x'' = Some (Inr ast1)
             \<and> nodes ast1 = [BOUND 0, VAR 23, CALL 1]
             \<and> error ast1 = [])"
proof -
  have zero: "parse_non_call_expr (Suc f) ast (CHR ''0'' # z) =
           Some (Inr (ast\<lparr>error := \<lparr>loc = length (zsrc ast) - Suc (length z),
                                     msg = InvalidDebruijn0\<rparr> # error ast,
                          nodes := nodes ast @ [BOUND 0]\<rparr>, Some z))"
    using assms
    by (simp add: parse_non_call_expr_fuel parse_non_call_expr_body_def lex_varname_def lex_int_def
        deref_def idx_from_letter_def idx_from_digit_def word_le_nat_alt add_syntax_error_def
        push_bound_def push_node_def ast_node_alloc_def Let_def)
  have one: "parse_non_call_expr (Suc f) ast (CHR ''1'' # z) =
           Some (Inr (ast\<lparr>nodes := nodes ast @ [BOUND 0]\<rparr>, Some z))"
    using assms
    by (simp add: parse_non_call_expr_fuel parse_non_call_expr_body_def lex_varname_def lex_int_def
        deref_def idx_from_letter_def idx_from_digit_def word_le_nat_alt add_syntax_error_def
        push_bound_def push_node_def ast_node_alloc_def Let_def)
  have prog0: "\<exists>ast0. parse 10 ''prog'' ''0 x'' = Some (Inr ast0)
             \<and> nodes ast0 = [BOUND 0, VAR 23, CALL 1]
             \<and> error ast0 = [\<lparr>loc = 0, msg = InvalidDebruijn0\<rparr>]"
    by (simp add: parse_eval)
  have prog1: "\<exists>ast1. parse 10 ''prog'' ''1 x'' = Some (Inr ast1)
             \<and> nodes ast1 = [BOUND 0, VAR 23, CALL 1]
             \<and> error ast1 = []"
    by (simp add: parse_eval)
  from zero one prog0 prog1 show ?thesis by blast
qed

section \<open>Binding of names\<close>


theorem C7_zero_index_witness:
  "idx_from_digit (deref []) \<ge> 10
   \<and> parse_non_call_expr (Suc 0) (new_ast ''prog'' ''0'') ''0'' =
        Some (Inr ((new_ast ''prog'' ''0'')\<lparr>error := [\<lparr>loc = 0, msg = InvalidDebruijn0\<rparr>],
                                           nodes := [BOUND 0]\<rparr>, Some []))
   \<and> parse_non_call_expr (Suc 0) (new_ast ''prog'' ''0'') ''1'' =
        Some (Inr ((new_ast ''prog'' ''0'')\<lparr>nodes := [BOUND 0]\<rparr>, Some []))"
  using C7_zero_index [of "[]" "new_ast ''prog'' ''0''" 0]
  by (simp add: new_ast_def strlen_def NUL_def deref_def idx_from_digit_def word_le_nat_alt)

text \<open>
  Claim C4 (the code departs from it).  On the source \<^verbatim>\<open>[x] x\<close>, written with a blank
  after the bracket as the claim writes it, \<^verbatim>\<open>parse\<close> does not produce an \<^verbatim>\<open>Ast\<close>: it dies
  with "Unused bytes after program source".  \<^verbatim>\<open>parse_lambda\<close> skips blanks after \<^verbatim>\<open>[\<close> and
  after the name, but calls \<^verbatim>\<open>parse_non_call_expr\<close> on the body without skipping blanks.
\<close>

theorem C4_lambda_blank_body_dies:
  "parse 10 ''prog'' ''[x] x'' = Some (Inl (DIE (UnusedBytes ''] x'')))
   \<and> parse 10 ''prog'' ''[x] [y] x'' = Some (Inl (DIE (UnusedBytes ''] [y] x'')))"
  by (simp add: parse_eval)

text \<open>Without the blanks the binding is as the claim describes.\<close>

lemma lambda_binding_no_blank:
  "map_option (map_sum id nodes) (parse 10 ''prog'' ''[x]x'') =
     Some (Inr [BOUND 0, VAR 23, LAMBDA])"
  "map_option (map_sum id nodes) (parse 10 ''prog'' ''[x][y]x'') =
     Some (Inr [BOUND 1, VAR 24, LAMBDA, VAR 23, LAMBDA])"
  by (simp_all add: parse_eval)

lemma uint_less_of_unat:
  fixes w :: u32
  assumes "unat w < n"
  shows "uint w < int n"
proof -
  have "int (unat w) < int n"
    using assms by linarith
  then show ?thesis
    by simp
qed

lemma sint_small:
  fixes w :: u32
  assumes "unat w < 2147483648"
  shows "sint w = uint w"
proof -
  have a: "uint w < 2147483648"
    using uint_less_of_unat [OF assms] by simp
  have b: "0 \<le> uint w"
    by simp
  have c: "- (2 ^ 31) \<le> uint w"
    by (rule order_trans [OF _ b]) simp
  have d: "uint w < 2 ^ 31"
    using a by simp
  have "signed_take_bit 31 (uint w) = uint w"
    using c d by (rule signed_take_bit_int_eq_self)
  then show ?thesis
    by (simp add: sint_uint)
qed

text \<open>
  The rule of \<^verbatim>\<open>push_var\<close>: a name bound at depth \<open>d > 0\<close> is emitted as
  \<open>BOUND (current_depth - d)\<close>, provided that difference is not negative as an
  \<^verbatim>\<open>int32_t\<close>; a name with no binder is emitted as \<open>VAR\<close>.
\<close>

lemma push_var_bound:
  assumes "unat tok < 26" and "length (binding_depths ast) = 26"
    and "binding_depths ast ! unat tok = d" and "d \<noteq> 0"
    and "0 \<le> sint (current_depth ast - d)"
    and "length (nodes ast) < nnodes_alloced ast"
  shows "push_var ast tok = Inr (ast\<lparr>nodes := nodes ast @ [BOUND (current_depth ast - d)]\<rparr>)"
proof -
  have s: "sint tok = uint tok"
    using assms(1) by (intro sint_small) simp
  have u: "uint tok < 26"
    using uint_less_of_unat [OF assms(1)] by simp
  have g1: "\<not> (sint tok + 97 > 122)"
    using s u by simp
  have g2: "\<not> (sint tok < 0 \<or> unat tok \<ge> length (binding_depths ast))"
    using s assms(1,2) by simp
  have g3: "\<not> sint (current_depth ast - d) < 0"
    using assms(5) by simp
  show ?thesis
    unfolding push_var_def Let_def push_bound_def push_node_def ast_node_alloc_def
    using g1 g2 g3 assms(3,4,6) by simp
qed


text \<open>
  Claim C9.  When the first character is not a lowercase letter, \<^verbatim>\<open>lex_varname\<close> yields
  the token \<open>-1\<close> and does not move.  The guard of \<^verbatim>\<open>push_varname\<close> lets \<open>-1\<close> through,
  and the node stored is \<open>VAR 4294967295\<close>.  On the source \<^verbatim>\<open>[]x\<close> parsing returns, with
  no syntax error at all, the nodes \<open>VAR 23, VAR 4294967295, LAMBDA\<close>; the token is
  caught only by the unifier, which dies on it.
\<close>

theorem C9_missing_parameter_name:
  "(26 \<le> idx_from_letter (deref z) \<longrightarrow> lex_varname ast z = Inr (ast, - 1, z))
   \<and> (length (nodes ast) < nnodes_alloced ast \<longrightarrow>
        push_varname ast (- 1) = Inr (ast\<lparr>nodes := nodes ast @ [VAR 4294967295]\<rparr>))
   \<and> (\<exists>ast0. parse 10 ''prog'' ''[]x'' = Some (Inr ast0)
         \<and> nodes ast0 = [VAR 23, VAR 4294967295, LAMBDA]
         \<and> error ast0 = []
         \<and> act_type 10 ast0 = Some (Inl (DIE (OverbigToken 4294967295))))"
proof -
  have a: "26 \<le> idx_from_letter (deref z) \<longrightarrow> lex_varname ast z = Inr (ast, - 1, z)"
    by (simp add: lex_varname_def)
  have b: "length (nodes ast) < nnodes_alloced ast \<longrightarrow>
        push_varname ast (- 1) = Inr (ast\<lparr>nodes := nodes ast @ [VAR 4294967295]\<rparr>)"
    by (simp add: push_varname_def push_node_def ast_node_alloc_def)
  have c: "\<exists>ast0. parse 10 ''prog'' ''[]x'' = Some (Inr ast0)
         \<and> nodes ast0 = [VAR 23, VAR 4294967295, LAMBDA]
         \<and> error ast0 = []
         \<and> act_type 10 ast0 = Some (Inl (DIE (OverbigToken 4294967295)))"
    by (simp add: parse_eval type_eval)
  from a b c show ?thesis by blast
qed

theorem C9_missing_parameter_name_witness:
  "26 \<le> idx_from_letter (deref '']x'')
   \<and> lex_varname (new_ast ''prog'' ''[]x'') '']x'' = Inr (new_ast ''prog'' ''[]x'', - 1, '']x'')
   \<and> length (nodes (new_ast ''prog'' ''[]x'')) < nnodes_alloced (new_ast ''prog'' ''[]x'')
   \<and> push_varname (new_ast ''prog'' ''[]x'') (- 1) =
        Inr ((new_ast ''prog'' ''[]x'')\<lparr>nodes := [VAR 4294967295]\<rparr>)"
  using C9_missing_parameter_name [of "'']x''" "new_ast ''prog'' ''[]x''"]
  by (simp add: new_ast_def strlen_def NUL_def deref_def idx_from_letter_def word_le_nat_alt)

section \<open>The unifier's copy and the printer's recursion guard\<close>


lemma unat_of_nat_u32:
  "k < 2 ^ 32 \<Longrightarrow> unat (of_nat k :: u32) = k"
  by (simp add: unat_of_nat take_bit_nat_eq_self)

text \<open>
  Claim C3.  In the pass of \<^verbatim>\<open>solve_types\<close>, at a \<open>VAR\<close> node at index \<open>k\<close> whose name already
  has a first occurrence \<open>b\<close>, the step stores in slot \<open>k\<close> a copy of the whole of slot
  \<open>b\<close> as it is at that moment (master, argument and result references) and changes
  nothing else.  The copy is a value: a later store into slot \<open>b\<close> leaves slot \<open>k\<close> as
  it was.  For \<^verbatim>\<open>x x\<close> the second \<open>x\<close> keeps the unbound contents it copied, although
  the first occurrence becomes a function type afterwards; it shares that type only
  through its copied master reference.
\<close>

theorem C3_snapshot_copy:
  assumes "k < length (postfix tt)" and "k < 2 ^ 32" and "postfix tt ! k = VAR val"
    and "unat val \<le> MAX_TOKS" and "unat val < length (bindings tt)"
    and "bindings tt ! unat val = Some b" and "k < length (types tt)"
  shows "solve_types_step f tt k = Some (Inr (tt\<lparr>types := (types tt)[k := types tt ! b]\<rparr>))
       \<and> (types tt)[k := types tt ! b] ! k = types tt ! b
       \<and> (\<forall>v. b = k \<or> ((types tt)[k := types tt ! b])[b := v] ! k = types tt ! b)
       \<and> (\<exists>ast tt0. parse 10 ''prog'' ''x x'' = Some (Inr ast)
             \<and> build_type_tree 10 ast = Some (Inr tt0)
             \<and> types tt0 = [\<lparr>master_t = 0, arg_t = Some 0, ret_t = Some 2\<rparr>,
                             \<lparr>master_t = 0, arg_t = None, ret_t = None\<rparr>,
                             \<lparr>master_t = 2, arg_t = None, ret_t = None\<rparr>])"
proof -
  have idx: "unat (of_nat k :: u32) = k"
    using assms(2) by (rule unat_of_nat_u32)
  have step: "solve_types_step f tt k = Some (Inr (tt\<lparr>types := (types tt)[k := types tt ! b]\<rparr>))"
    using assms by (simp add: solve_types_step_def ast_unpack_def idx)
  have copy: "(types tt)[k := types tt ! b] ! k = types tt ! b"
    using assms(7) by simp
  have later: "\<forall>v. b = k \<or> ((types tt)[k := types tt ! b])[b := v] ! k = types tt ! b"
    using assms(7) by auto
  have xx: "\<exists>ast tt0. parse 10 ''prog'' ''x x'' = Some (Inr ast)
             \<and> build_type_tree 10 ast = Some (Inr tt0)
             \<and> types tt0 = [\<lparr>master_t = 0, arg_t = Some 0, ret_t = Some 2\<rparr>,
                             \<lparr>master_t = 0, arg_t = None, ret_t = None\<rparr>,
                             \<lparr>master_t = 2, arg_t = None, ret_t = None\<rparr>]"
    by (simp add: parse_eval type_eval)
  from step copy later xx show ?thesis by blast
qed

theorem C3_snapshot_copy_witness:
  "solve_types_step 0
     \<lparr>postfix = [VAR 23, VAR 23, CALL 1], tree_size = 3,
      bindings = (replicate 26 None)[23 := Some 0],
      types = [\<lparr>master_t = 0, arg_t = None, ret_t = None\<rparr>,
               \<lparr>master_t = 1, arg_t = None, ret_t = None\<rparr>,
               \<lparr>master_t = 2, arg_t = None, ret_t = None\<rparr>]\<rparr> 1 =
   Some (Inr
     \<lparr>postfix = [VAR 23, VAR 23, CALL 1], tree_size = 3,
      bindings = (replicate 26 None)[23 := Some 0],
      types = [\<lparr>master_t = 0, arg_t = None, ret_t = None\<rparr>,
               \<lparr>master_t = 0, arg_t = None, ret_t = None\<rparr>,
               \<lparr>master_t = 2, arg_t = None, ret_t = None\<rparr>]\<rparr>)"
  using C3_snapshot_copy [of 1
     "\<lparr>postfix = [VAR 23, VAR 23, CALL 1], tree_size = 3,
      bindings = (replicate 26 None)[23 := Some 0],
      types = [\<lparr>master_t = 0, arg_t = None, ret_t = None\<rparr>,
               \<lparr>master_t = 1, arg_t = None, ret_t = None\<rparr>,
               \<lparr>master_t = 2, arg_t = None, ret_t = None\<rparr>]\<rparr>" 23 0 0]
  by (simp add: MAX_TOKS_def)



section \<open>Nodes that the type pass does not know\<close>


text \<open>The unifier never touches the node sequence of the tree.\<close>

lemma unify_body_postfix:
  assumes "\<And>tt a b tt'. p tt a b = Some (Inr tt') \<Longrightarrow> postfix tt' = postfix tt"
    and "unify_body f p tt a b = Some (Inr tt')"
  shows "postfix tt' = postfix tt"
  using assms(2)
  by (auto simp add: unify_body_def Let_def
      split: if_splits option.splits sum.splits prod.splits dest!: assms(1))

lemma unify_postfix:
  "unify f tt a b = Some (Inr tt') \<Longrightarrow> postfix tt' = postfix tt"
proof (induction f arbitrary: tt a b tt')
  case 0
  then show ?case by (simp add: unify_fuel)
next
  case (Suc f)
  show ?case
  proof (rule unify_body_postfix)
    show "unify_body f (unify f) tt a b = Some (Inr tt')"
      using Suc.prems by (simp add: unify_fuel)
  next
    fix tt1 a1 b1 tt1'
    assume "unify f tt1 a1 b1 = Some (Inr tt1')"
    then show "postfix tt1' = postfix tt1" by (rule Suc.IH)
  qed
qed

lemma coerce_to_fun_type_postfix:
  "coerce_to_fun_type f tt ifun icall = Some (Inr tt') \<Longrightarrow> postfix tt' = postfix tt"
  by (auto simp add: coerce_to_fun_type_def Let_def
      split: if_splits option.splits sum.splits prod.splits dest!: unify_postfix)

lemma solve_types_step_postfix:
  "solve_types_step f tt k = Some (Inr tt') \<Longrightarrow> postfix tt' = postfix tt"
  by (auto simp add: solve_types_step_def
      split: if_splits option.splits sum.splits prod.splits AstNodeType.splits
      dest!: coerce_to_fun_type_postfix)

lemma ast_unpack_other_tag:
  assumes "unat idx < length nds"
    and "nds ! unat idx = LAMBDA \<or> (\<exists>d. nds ! unat idx = BOUND d)"
  shows "ast_unpack nds idx = Inl (DIE (BadTypeId (unat idx)))"
  using assms by (auto simp add: ast_unpack_def)

lemma solve_types_step_other_tag:
  assumes "k < length (postfix tt)" and "k < 2 ^ 32"
    and "postfix tt ! k = LAMBDA \<or> (\<exists>d. postfix tt ! k = BOUND d)"
  shows "solve_types_step f tt k = Some (Inl (DIE (BadTypeId k)))"
proof -
  have idx: "unat (of_nat k :: u32) = k"
    using assms(2) by (rule unat_of_nat_u32)
  have "ast_unpack (postfix tt) (of_nat k) = Inl (DIE (BadTypeId k))"
    using ast_unpack_other_tag [of "of_nat k" "postfix tt"] assms(1,3) by (simp add: idx)
  then show ?thesis
    by (simp add: solve_types_step_def)
qed

lemma solve_types_loop_other_tag:
  assumes "k \<in> set ks" and "k < length (postfix tt)" and "k < 2 ^ 32"
    and "postfix tt ! k = LAMBDA \<or> (\<exists>d. postfix tt ! k = BOUND d)"
  shows "solve_types_loop f tt ks \<noteq> Some (Inr tt')"
  using assms
proof (induction ks arbitrary: tt)
  case Nil
  then show ?case by simp
next
  case (Cons j ks)
  show ?case
  proof (cases "solve_types_step f tt j")
    case None
    then show ?thesis by simp
  next
    case (Some r)
    show ?thesis
    proof (cases r)
      case (Inl e)
      with Some show ?thesis by simp
    next
      case (Inr tt1)
      have same: "postfix tt1 = postfix tt"
        using Some Inr by (simp add: solve_types_step_postfix)
      have "j \<noteq> k"
        using solve_types_step_other_tag [OF Cons.prems(2,3,4), of f] Some Inr by auto
      then have "k \<in> set ks"
        using Cons.prems(1) by simp
      then have "solve_types_loop f tt1 ks \<noteq> Some (Inr tt')"
        using Cons.IH [of tt1] Cons.prems(2,3,4) same by simp
      then show ?thesis
        using Some Inr by simp
    qed
  qed
qed

lemma act_type_other_tag:
  assumes "i < length (nodes ast)" and "length (nodes ast) \<le> 2 ^ 32"
    and "nodes ast ! i = LAMBDA \<or> (\<exists>d. nodes ast ! i = BOUND d)"
  shows "act_type f ast \<noteq> Some (Inr out)"
proof -
  let ?tt = "\<lparr>postfix = nodes ast, tree_size = length (nodes ast),
              bindings = replicate MAX_TOKS None,
              types = map (\<lambda>k. \<lparr>master_t = k, arg_t = None, ret_t = None\<rparr>)
                        [0..<length (nodes ast)]\<rparr>"
  have "solve_types_loop f ?tt [0..<length (nodes ast)] \<noteq> Some (Inr tt')" for tt'
    using assms by (intro solve_types_loop_other_tag [of i]) auto
  then have "build_type_tree f ast \<noteq> Some (Inr tt')" for tt'
    using assms(1) by (simp add: build_type_tree_def ast_postfix_def solve_types_def)
  then show ?thesis
    by (auto simp add: act_type_def split: option.splits sum.splits)
qed

text \<open>
  Claim C8.  \<^verbatim>\<open>ast_unpack\<close> knows the tags \<^verbatim>\<open>ANT_VAR\<close> and \<^verbatim>\<open>ANT_CALL\<close> only: on a \<open>LAMBDA\<close> or
  \<open>BOUND\<close> node it takes its fatal branch.  Hence \<^verbatim>\<open>act_type\<close> never runs to completion on
  an \<^verbatim>\<open>Ast\<close> that holds such a node, whatever the fuel; on the programs \<^verbatim>\<open>[x]x\<close> and \<^verbatim>\<open>x 1\<close>
  it dies with the bad type id of the first such node.  It does complete on the
  application of free variables \<^verbatim>\<open>x (y z)\<close>.
\<close>

theorem C8_only_var_and_call:
  "(unat idx < length nds \<longrightarrow>
      (nds ! unat idx = LAMBDA \<or> (\<exists>d. nds ! unat idx = BOUND d)) \<longrightarrow>
      ast_unpack nds idx = Inl (DIE (BadTypeId (unat idx))))
   \<and> (i < length (nodes ast) \<longrightarrow> length (nodes ast) \<le> 2 ^ 32 \<longrightarrow>
      (nodes ast ! i = LAMBDA \<or> (\<exists>d. nodes ast ! i = BOUND d)) \<longrightarrow>
      (\<forall>f out. act_type f ast \<noteq> Some (Inr out)))
   \<and> (\<exists>ast1. parse 10 ''prog'' ''[x]x'' = Some (Inr ast1)
         \<and> nodes ast1 = [BOUND 0, VAR 23, LAMBDA]
         \<and> act_type 10 ast1 = Some (Inl (DIE (BadTypeId 0))))
   \<and> (\<exists>ast2. parse 10 ''prog'' ''x 1'' = Some (Inr ast2)
         \<and> nodes ast2 = [VAR 23, BOUND 0, CALL 1]
         \<and> act_type 10 ast2 = Some (Inl (DIE (BadTypeId 1))))
   \<and> (\<exists>ast3. parse 10 ''prog'' ''x (y z)'' = Some (Inr ast3)
         \<and> nodes ast3 = [VAR 23, VAR 24, VAR 25, CALL 1, CALL 3]
         \<and> act_type 10 ast3 =
             Some (Inr ''X=(Yr Xr)\<newline>Y=(Z Yr)\<newline>Z\<newline>Yr\<newline>Xr\<newline>''))"
proof -
  have a: "unat idx < length nds \<longrightarrow>
      (nds ! unat idx = LAMBDA \<or> (\<exists>d. nds ! unat idx = BOUND d)) \<longrightarrow>
      ast_unpack nds idx = Inl (DIE (BadTypeId (unat idx)))"
    using ast_unpack_other_tag by blast
  have b: "i < length (nodes ast) \<longrightarrow> length (nodes ast) \<le> 2 ^ 32 \<longrightarrow>
      (nodes ast ! i = LAMBDA \<or> (\<exists>d. nodes ast ! i = BOUND d)) \<longrightarrow>
      (\<forall>f out. act_type f ast \<noteq> Some (Inr out))"
    using act_type_other_tag by blast
  have c1: "\<exists>ast1. parse 10 ''prog'' ''[x]x'' = Some (Inr ast1)
         \<and> nodes ast1 = [BOUND 0, VAR 23, LAMBDA]
         \<and> act_type 10 ast1 = Some (Inl (DIE (BadTypeId 0)))"
    by (simp add: parse_eval type_eval)
  have c2: "\<exists>ast2. parse 10 ''prog'' ''x 1'' = Some (Inr ast2)
         \<and> nodes ast2 = [VAR 23, BOUND 0, CALL 1]
         \<and> act_type 10 ast2 = Some (Inl (DIE (BadTypeId 1)))"
    by (simp add: parse_eval type_eval)
  have c3: "\<exists>ast3. parse 10 ''prog'' ''x (y z)'' = Some (Inr ast3)
         \<and> nodes ast3 = [VAR 23, VAR 24, VAR 25, CALL 1, CALL 3]
         \<and> act_type 10 ast3 =
             Some (Inr ''X=(Yr Xr)\<newline>Y=(Z Yr)\<newline>Z\<newline>Yr\<newline>Xr\<newline>'')"
    by (simp add: parse_eval type_eval)
  from a b c1 c2 c3 show ?thesis by blast
qed

theorem C8_only_var_and_call_witness:
  "unat (2 :: u32) < length [BOUND 0, VAR 23, LAMBDA]
   \<and> [BOUND 0, VAR 23, LAMBDA] ! unat (2 :: u32) = LAMBDA
   \<and> ast_unpack [BOUND 0, VAR 23, LAMBDA] 2 = Inl (DIE (BadTypeId 2))
   \<and> (\<forall>f out. act_type f ((new_ast ''prog'' ''[x]x'')\<lparr>nodes := [BOUND 0, VAR 23, LAMBDA]\<rparr>)
          \<noteq> Some (Inr out))"
  using C8_only_var_and_call [of 2 "[BOUND 0, VAR 23, LAMBDA]" 2
      "(new_ast ''prog'' ''[x]x'')\<lparr>nodes := [BOUND 0, VAR 23, LAMBDA]\<rparr>"]
  by simp

section \<open>The capacity of the printer's stack\<close>


text \<open>The application of eighteen names: a type nested seventeen deep.\<close>

lemma parse_eighteen_names:
  "parse 40 ''prog'' ''a b c d e f g h i j k l m n o p q r'' =
     Some (Inr \<lparr>zname = ''prog'', zsrc = ''a b c d e f g h i j k l m n o p q r'',
                error = [], zsrc_len = 43, nnodes_alloced = 43, current_depth = 0,
                binding_depths = replicate 26 0,
                nodes =
                  [VAR 0, VAR 1, CALL 1, VAR 2, CALL 1, VAR 3, CALL 1, VAR 4, CALL 1,
                   VAR 5, CALL 1, VAR 6, CALL 1, VAR 7, CALL 1, VAR 8, CALL 1,
                   VAR 9, CALL 1, VAR 10, CALL 1, VAR 11, CALL 1, VAR 12, CALL 1,
                   VAR 13, CALL 1, VAR 14, CALL 1, VAR 15, CALL 1, VAR 16, CALL 1,
                   VAR 17, CALL 1]\<rparr>)"
  by (simp add: parse_eval)

lemma act_type_eighteen_names:
  "act_type 40
     \<lparr>zname = ''prog'', zsrc = ''a b c d e f g h i j k l m n o p q r'',
                error = [], zsrc_len = 43, nnodes_alloced = 43, current_depth = 0,
                binding_depths = replicate 26 0,
                nodes =
                  [VAR 0, VAR 1, CALL 1, VAR 2, CALL 1, VAR 3, CALL 1, VAR 4, CALL 1,
                   VAR 5, CALL 1, VAR 6, CALL 1, VAR 7, CALL 1, VAR 8, CALL 1,
                   VAR 9, CALL 1, VAR 10, CALL 1, VAR 11, CALL 1, VAR 12, CALL 1,
                   VAR 13, CALL 1, VAR 14, CALL 1, VAR 15, CALL 1, VAR 16, CALL 1,
                   VAR 17, CALL 1]\<rparr> = Some (Inl (UB (UnparserStackOverrun 16)))"
  by (simp add: type_eval)

text \<open>
  Claim C2 (the code departs from it).  \<^verbatim>\<open>unparse_push\<close> never compares \<open>depth\<close> with
  \<^verbatim>\<open>MAX_DEPTH\<close>.  For the program of eighteen names applied in a row the type of the first
  name nests seventeen function types; printing it fills the sixteen slots of the stack
  and then stores a seventeenth pointer past the end of the array.  That store is
  undefined behaviour, not the fatal error with a message that the claim requires.
\<close>

theorem C2_stack_overrun_not_fatal:
  "\<exists>ast. parse 40 ''prog'' ''a b c d e f g h i j k l m n o p q r'' = Some (Inr ast)
      \<and> error ast = []
      \<and> length (nodes ast) = 35
      \<and> act_type 40 ast = Some (Inl (UB (UnparserStackOverrun 16)))"
  using parse_eighteen_names act_type_eighteen_names by simp

section \<open>The postfix layout\<close>

declare span.simps [simp del]

lemma postfix_of_nonempty: "postfix_of e \<noteq> []"
  by (cases e) simp_all

lemma postfix_of_length_pos: "0 < length (postfix_of e)"
  using postfix_of_nonempty [of e] by simp

lemma unat_arg_size:
  "n \<le> 2147483647 \<Longrightarrow> unat (of_nat n :: u32) = n"
  by (rule unat_of_nat_u32) simp

text \<open>The subtree of an expression laid out inside a longer run of nodes.\<close>

lemma span_postfix_of:
  "span (pre @ postfix_of e @ post) (length pre + length (postfix_of e) - 1)
     = Some (length (postfix_of e))"
proof (induction e arbitrary: pre post)
  case (EVar t)
  show ?case
    by (simp add: span.simps [of _ "length pre"] nth_append)
next
  case (EBound d)
  show ?case
    by (simp add: span.simps [of _ "length pre"] nth_append)
next
  case (ELambda b t)
  let ?nds = "pre @ postfix_of (ELambda b t) @ post"
  let ?n = "length (postfix_of b)"
  have n: "0 < ?n" by (rule postfix_of_length_pos)
  have body: "span ?nds (length pre + ?n - 1) = Some ?n"
    using ELambda.IH [of pre "[VAR t, LAMBDA] @ post"] by simp
  have at: "?nds ! (length pre + ?n + 1) = LAMBDA" "?nds ! (length pre + ?n) = VAR t"
    by (simp_all add: nth_append)
  have "span ?nds (length pre + ?n + 1) = Some (?n + 2)"
    using n body at by (subst span.simps) (simp add: add.commute)
  then show ?case by simp
next
  case (ECall fn a)
  let ?nds = "pre @ postfix_of (ECall fn a) @ post"
  let ?f = "length (postfix_of fn)"
  let ?a = "length (postfix_of a)"
  have f: "0 < ?f" and a: "0 < ?a" by (rule postfix_of_length_pos)+
  have arg: "span ?nds (length pre + ?f + ?a - 1) = Some ?a"
    using ECall.IH(2) [of "pre @ postfix_of fn" "[CALL (of_nat ?a)] @ post"]
    by (simp add: add.assoc)
  have callee: "span ?nds (length pre + ?f - 1) = Some ?f"
    using ECall.IH(1) [of pre "postfix_of a @ [CALL (of_nat ?a)] @ post"] by simp
  have at: "?nds ! (length pre + ?f + ?a) = CALL (of_nat ?a)"
    by (simp add: nth_append)
  have eq: "length pre + ?f + ?a - 1 - ?a = length pre + ?f - 1"
    using f by simp
  have "span ?nds (length pre + ?f + ?a) = Some (?f + ?a + 1)"
    using f a arg callee at eq by (subst span.simps) simp
  then show ?case by (simp add: add.assoc)
qed

text \<open>Every slot of a laid-out expression is the root of a laid-out expression inside it.\<close>

lemma subtree_at:
  assumes "length pre \<le> i" and "i < length pre + length (postfix_of e)"
  shows "\<exists>pre' e' post'. pre @ postfix_of e @ post = pre' @ postfix_of e' @ post'
           \<and> length pre' + length (postfix_of e') = i + 1
           \<and> length pre \<le> length pre'
           \<and> (small_args e \<longrightarrow> small_args e')"
  using assms
proof (induction e arbitrary: pre post)
  case (EVar t)
  then have "i = length pre" by simp
  then show ?case
    by (intro exI [of _ pre] exI [of _ "EVar t"] exI [of _ post]) simp
next
  case (EBound d)
  then have "i = length pre" by simp
  then show ?case
    by (intro exI [of _ pre] exI [of _ "EBound d"] exI [of _ post]) simp
next
  case (ELambda b t)
  let ?n = "length (postfix_of b)"
  consider "i < length pre + ?n" | "i = length pre + ?n" | "i = length pre + ?n + 1"
    using ELambda.prems by fastforce
  then show ?case
  proof cases
    case 1
    obtain pre' e' post' where
      "pre @ postfix_of b @ ([VAR t, LAMBDA] @ post) = pre' @ postfix_of e' @ post'"
      "length pre' + length (postfix_of e') = i + 1" "length pre \<le> length pre'"
      "small_args b \<longrightarrow> small_args e'"
      using ELambda.IH [OF ELambda.prems(1) 1, of "[VAR t, LAMBDA] @ post"] by blast
    then show ?thesis
      by (intro exI [of _ pre'] exI [of _ e'] exI [of _ post']) simp
  next
    case 2
    then show ?thesis
      by (intro exI [of _ "pre @ postfix_of b"] exI [of _ "EVar t"] exI [of _ "LAMBDA # post"])
         simp
  next
    case 3
    then show ?thesis
      by (intro exI [of _ pre] exI [of _ "ELambda b t"] exI [of _ post]) simp
  qed
next
  case (ECall fn a)
  let ?f = "length (postfix_of fn)"
  let ?a = "length (postfix_of a)"
  consider "i < length pre + ?f" | "length pre + ?f \<le> i" "i < length pre + ?f + ?a"
    | "i = length pre + ?f + ?a"
    using ECall.prems by fastforce
  then show ?case
  proof cases
    case 1
    obtain pre' e' post' where
      "pre @ postfix_of fn @ (postfix_of a @ [CALL (of_nat ?a)] @ post)
         = pre' @ postfix_of e' @ post'"
      "length pre' + length (postfix_of e') = i + 1" "length pre \<le> length pre'"
      "small_args fn \<longrightarrow> small_args e'"
      using ECall.IH(1) [OF ECall.prems(1) 1, of "postfix_of a @ [CALL (of_nat ?a)] @ post"]
      by blast
    then show ?thesis
      by (intro exI [of _ pre'] exI [of _ e'] exI [of _ post']) simp
  next
    case 2
    have "length (pre @ postfix_of fn) \<le> i"
      and "i < length (pre @ postfix_of fn) + length (postfix_of a)"
      using 2 by simp_all
    then obtain pre' e' post' where
      "(pre @ postfix_of fn) @ postfix_of a @ ([CALL (of_nat ?a)] @ post)
         = pre' @ postfix_of e' @ post'"
      "length pre' + length (postfix_of e') = i + 1"
      "length (pre @ postfix_of fn) \<le> length pre'"
      "small_args a \<longrightarrow> small_args e'"
      using ECall.IH(2) [of "pre @ postfix_of fn" "[CALL (of_nat ?a)] @ post"] by blast
    then show ?thesis
      by (intro exI [of _ pre'] exI [of _ e'] exI [of _ post']) simp
  next
    case 3
    then show ?thesis
      by (intro exI [of _ pre] exI [of _ "ECall fn a"] exI [of _ post]) simp
  qed
qed


lemma add_syntax_error_nodes:
  "add_syntax_error ast z m = Inr ast' \<Longrightarrow> nodes ast' = nodes ast"
  by (auto simp add: add_syntax_error_def Let_def split: if_splits)

lemma lex_varname_nodes:
  "lex_varname ast z = Inr (ast', tok, z') \<Longrightarrow> nodes ast' = nodes ast"
  by (auto simp add: lex_varname_def Let_def split: if_splits sum.splits
      dest: add_syntax_error_nodes)

lemma lex_int_nodes:
  "lex_int ast z = Inr (ast', tok, z') \<Longrightarrow> nodes ast' = nodes ast"
  by (auto simp add: lex_int_def Let_def split: if_splits sum.splits
      dest: add_syntax_error_nodes)

lemma push_node_nodes:
  "push_node ast nd = Inr ast' \<Longrightarrow> nodes ast' = nodes ast @ [nd]"
  by (auto simp add: push_node_def ast_node_alloc_def Let_def split: if_splits sum.splits)

lemma push_varname_nodes:
  "push_varname ast tok = Inr ast' \<Longrightarrow> nodes ast' = nodes ast @ [VAR tok]"
  by (auto simp add: push_varname_def split: if_splits dest: push_node_nodes)

lemma push_bound_nodes:
  "push_bound ast d = Inr ast' \<Longrightarrow> nodes ast' = nodes ast @ [BOUND d]"
  by (auto simp add: push_bound_def split: if_splits dest: push_node_nodes)

lemma push_var_emits:
  assumes "push_var ast tok = Inr ast'"
  shows "\<exists>e. small_args e \<and> nodes ast' = nodes ast @ postfix_of e"
proof (cases "binding_depths ast ! unat tok = 0")
  case True
  then have "nodes ast' = nodes ast @ postfix_of (EVar tok)"
    using assms by (auto simp add: push_var_def Let_def split: if_splits dest: push_varname_nodes)
  then show ?thesis
    by (intro exI [of _ "EVar tok"]) simp
next
  case False
  then have "nodes ast' = nodes ast @ postfix_of (EBound (current_depth ast - binding_depths ast ! unat tok))"
    using assms by (auto simp add: push_var_def Let_def split: if_splits dest: push_bound_nodes)
  then show ?thesis
    by (intro exI [of _ "EBound (current_depth ast - binding_depths ast ! unat tok)"]) simp
qed

lemma push_bound_emits:
  assumes "push_bound ast d = Inr ast'"
  shows "\<exists>e. small_args e \<and> nodes ast' = nodes ast @ postfix_of e"
  using push_bound_nodes [OF assms] by (intro exI [of _ "EBound d"]) simp

lemma emits_expr_None:
  assumes "emits_expr p" and "p ast z = Some (Inr (ast', None))"
  shows "nodes ast' = nodes ast"
proof -
  have "\<forall>ast z ast' r. p ast z = Some (Inr (ast', r)) \<longrightarrow>
        (case r of
           None \<Rightarrow> nodes ast' = nodes ast
         | Some z' \<Rightarrow> (\<exists>e. small_args e \<and> nodes ast' = nodes ast @ postfix_of e))"
    using assms(1) unfolding emits_expr_def .
  from this [rule_format, OF assms(2)] show ?thesis by simp
qed

lemma emits_expr_Some:
  assumes "emits_expr p" and "p ast z = Some (Inr (ast', Some z'))"
  shows "\<exists>e. small_args e \<and> nodes ast' = nodes ast @ postfix_of e"
proof -
  have "\<forall>ast z ast' r. p ast z = Some (Inr (ast', r)) \<longrightarrow>
        (case r of
           None \<Rightarrow> nodes ast' = nodes ast
         | Some z' \<Rightarrow> (\<exists>e. small_args e \<and> nodes ast' = nodes ast @ postfix_of e))"
    using assms(1) unfolding emits_expr_def .
  from this [rule_format, OF assms(2)] show ?thesis by simp
qed

lemma parse_non_call_expr_body_emits:
  assumes "emits_expr p_expr" and "emits_expr p_lambda"
  shows "emits_expr (parse_non_call_expr_body p_expr p_lambda)"
  unfolding emits_expr_def
proof (intro allI impI)
  fix ast z ast' r
  assume run: "parse_non_call_expr_body p_expr p_lambda ast z = Some (Inr (ast', r))"
  show "case r of None \<Rightarrow> nodes ast' = nodes ast
        | Some z' \<Rightarrow> \<exists>e. small_args e \<and> nodes ast' = nodes ast @ postfix_of e"
    using run
    by (auto simp add: parse_non_call_expr_body_def
        split: sum.splits prod.splits if_splits option.splits
        dest!: lex_varname_nodes lex_int_nodes add_syntax_error_nodes push_var_emits
               push_bound_emits
               emits_expr_None [OF assms(1)] emits_expr_Some [OF assms(1)]
               emits_expr_None [OF assms(2)] emits_expr_Some [OF assms(2)])
qed

lemma lambda_emits:
  assumes "small_args b" and "ns = pre @ postfix_of b @ [VAR t, LAMBDA]"
  shows "\<exists>e. small_args e \<and> ns = pre @ postfix_of e"
  using assms by (intro exI [of _ "ELambda b t"]) simp

lemma parse_lambda_body_emits:
  assumes "emits_expr p_non_call_expr"
  shows "emits_expr (parse_lambda_body p_non_call_expr)"
  unfolding emits_expr_def
proof (intro allI impI)
  fix ast z ast' r
  assume run: "parse_lambda_body p_non_call_expr ast z = Some (Inr (ast', r))"
  show "case r of None \<Rightarrow> nodes ast' = nodes ast
        | Some z' \<Rightarrow> \<exists>e. small_args e \<and> nodes ast' = nodes ast @ postfix_of e"
    using run
    by (auto simp add: parse_lambda_body_def Let_def
        split: sum.splits prod.splits if_splits option.splits
        dest!: lex_varname_nodes add_syntax_error_nodes push_varname_nodes push_node_nodes
               emits_expr_None [OF assms] emits_expr_Some [OF assms]
        intro: lambda_emits)
qed

lemma extends_callD:
  assumes "extends_call p" and "p ast z = Some (Inr (ast', r))"
    and "nodes ast = pre @ postfix_of e" and "small_args e"
  shows "r \<noteq> None \<and> (\<exists>e'. small_args e' \<and> nodes ast' = pre @ postfix_of e')"
proof -
  have "\<forall>ast z ast' r pre e. p ast z = Some (Inr (ast', r)) \<longrightarrow>
        nodes ast = pre @ postfix_of e \<longrightarrow> small_args e \<longrightarrow>
        r \<noteq> None \<and> (\<exists>e'. small_args e' \<and> nodes ast' = pre @ postfix_of e')"
    using assms(1) unfolding extends_call_def .
  from this [rule_format, OF assms(2,3,4)] show ?thesis .
qed

lemma parse_expr_calls_body_extends:
  assumes nce: "emits_expr p_non_call_expr" and again: "extends_call p_again"
  shows "extends_call (parse_expr_calls_body p_non_call_expr p_again)"
  unfolding extends_call_def
proof (intro allI impI)
  fix ast z ast' r pre e
  assume run: "parse_expr_calls_body p_non_call_expr p_again ast z = Some (Inr (ast', r))"
    and lay: "nodes ast = pre @ postfix_of e" and small: "small_args e"
  have ne: "nodes ast \<noteq> []"
    using lay postfix_of_nonempty by simp
  then have root: "ast_root ast = Inr (length (nodes ast) - 1)"
    by (simp add: ast_root_def)
  obtain ast1 r1 where arg: "p_non_call_expr ast (eat_white z) = Some (Inr (ast1, r1))"
    using run root
    by (auto simp add: parse_expr_calls_body_def Let_def split: option.splits sum.splits)
  show "r \<noteq> None \<and> (\<exists>e'. small_args e' \<and> nodes ast' = pre @ postfix_of e')"
  proof (cases r1)
    case None
    have same: "nodes ast1 = nodes ast"
      using emits_expr_None [OF nce] arg None by simp
    then have "ast_root ast1 = Inr (length (nodes ast1) - 1)"
      using ne by (simp add: ast_root_def)
    then have "ast' = ast1 \<and> r = Some (eat_white z)"
      using run root arg None by (simp add: parse_expr_calls_body_def Let_def)
    then show ?thesis
      using same lay small by auto
  next
    case (Some z1)
    obtain a where a: "small_args a" "nodes ast1 = nodes ast @ postfix_of a"
      using emits_expr_Some [OF nce] arg Some by blast
    have root1: "ast_root ast1 = Inr (length (nodes ast1) - 1)"
      using a(2) ne by (simp add: ast_root_def)
    have size: "length (nodes ast1) - 1 - (length (nodes ast) - 1) = length (postfix_of a)"
      using a(2) ne by (simp add: Suc_diff_le length_greater_0_conv [THEN iffD2])
    from run root arg Some root1 size
    obtain ast2 where le: "length (postfix_of a) \<le> 2147483647"
      and push: "push_node ast1 (CALL (of_nat (length (postfix_of a)))) = Inr ast2"
      and rest: "p_again ast2 z1 = Some (Inr (ast', r))"
      by (auto simp add: parse_expr_calls_body_def Let_def split: if_splits sum.splits)
    have "nodes ast2 = pre @ postfix_of (ECall e a)"
      using push_node_nodes [OF push] a(2) lay by simp
    moreover have "small_args (ECall e a)"
      using small a(1) le by simp
    ultimately show ?thesis
      using extends_callD [OF again rest] by blast
  qed
qed

lemma parse_expr_first_body_emits:
  assumes nce: "emits_expr p_non_call_expr" and calls: "extends_call p_calls"
    and again: "emits_expr (\<lambda>ast z1. p_again ast z0 z1)"
  shows "emits_expr (\<lambda>ast z1. parse_expr_first_body p_non_call_expr p_calls p_again ast z0 z1)"
  unfolding emits_expr_def
proof (intro allI impI)
  fix ast z1 ast' r
  assume run: "parse_expr_first_body p_non_call_expr p_calls p_again ast z0 z1
                 = Some (Inr (ast', r))"
  obtain ast1 r1 where first: "p_non_call_expr ast z1 = Some (Inr (ast1, r1))"
    using run
    by (auto simp add: parse_expr_first_body_def split: option.splits sum.splits)
  show "case r of None \<Rightarrow> nodes ast' = nodes ast
        | Some z' \<Rightarrow> \<exists>e. small_args e \<and> nodes ast' = nodes ast @ postfix_of e"
  proof (cases r1)
    case (Some z)
    obtain e where e: "small_args e" "nodes ast1 = nodes ast @ postfix_of e"
      using emits_expr_Some [OF nce] first Some by blast
    have "p_calls ast1 z = Some (Inr (ast', r))"
      using run first Some by (simp add: parse_expr_first_body_def)
    from extends_callD [OF calls this e(2) e(1)]
    show ?thesis by auto
  next
    case None
    have same: "nodes ast1 = nodes ast"
      using emits_expr_None [OF nce] first None by simp
    from run first None
    obtain ast2 where ast2: "nodes ast2 = nodes ast1"
      and fin: "(deref z1 = NUL \<and> ast' = ast2 \<and> r = None)
                \<or> (deref z1 \<noteq> NUL \<and> p_again ast2 z0 (eat_white (tl z1)) = Some (Inr (ast', r)))"
      by (auto simp add: parse_expr_first_body_def
          split: if_splits sum.splits dest: add_syntax_error_nodes)
    from fin show ?thesis
    proof
      assume "deref z1 = NUL \<and> ast' = ast2 \<and> r = None"
      then show ?thesis using ast2 same by simp
    next
      assume "deref z1 \<noteq> NUL \<and> p_again ast2 z0 (eat_white (tl z1)) = Some (Inr (ast', r))"
      then have "p_again ast2 z0 (eat_white (tl z1)) = Some (Inr (ast', r))" by simp
      then show ?thesis
        using emits_expr_None [OF again, of ast2 "eat_white (tl z1)" ast']
              emits_expr_Some [OF again, of ast2 "eat_white (tl z1)" ast']
              ast2 same
        by (cases r) auto
    qed
  qed
qed

lemma emits_expr_no_fuel: "emits_expr (\<lambda>ast z. None)"
  by (simp add: emits_expr_def)

lemma extends_call_no_fuel: "extends_call (\<lambda>ast z. None)"
  by (simp add: extends_call_def)

lemma parse_emits:
  "emits_expr (parse_expr f)
   \<and> (\<forall>z0. emits_expr (\<lambda>ast z1. parse_expr_first f ast z0 z1))
   \<and> extends_call (parse_expr_calls f)
   \<and> emits_expr (parse_non_call_expr f)
   \<and> emits_expr (parse_lambda f)"
proof (induction f)
  case 0
  show ?case
    by (simp add: parse_expr.simps parse_expr_first.simps parse_expr_calls.simps
        parse_non_call_expr.simps parse_lambda.simps emits_expr_no_fuel extends_call_no_fuel)
next
  case (Suc f)
  have e: "emits_expr (parse_expr f)"
    and fi: "\<And>z0. emits_expr (\<lambda>ast z1. parse_expr_first f ast z0 z1)"
    and c: "extends_call (parse_expr_calls f)"
    and n: "emits_expr (parse_non_call_expr f)"
    and l: "emits_expr (parse_lambda f)"
    using Suc.IH by simp_all
  have "emits_expr (parse_expr (Suc f))"
    using fi by (simp add: emits_expr_def parse_expr.simps)
  moreover have "emits_expr (\<lambda>ast z1. parse_expr_first (Suc f) ast z0 z1)" for z0
    using parse_expr_first_body_emits [OF n c fi] by (simp add: parse_expr_first.simps)
  moreover have "extends_call (parse_expr_calls (Suc f))"
    using parse_expr_calls_body_extends [OF n c] by (simp add: parse_expr_calls.simps)
  moreover have "emits_expr (parse_non_call_expr (Suc f))"
    using parse_non_call_expr_body_emits [OF e l] by (simp add: parse_non_call_expr.simps)
  moreover have "emits_expr (parse_lambda (Suc f))"
    using parse_lambda_body_emits [OF n] by (simp add: parse_lambda.simps)
  ultimately show ?case by blast
qed

lemma parse_postfix_of:
  assumes "parse f name src = Some (Inr ast)"
  shows "nodes ast = [] \<or> (\<exists>e. small_args e \<and> nodes ast = postfix_of e)"
proof -
  have em: "emits_expr (parse_expr f)"
    using parse_emits [of f] by simp
  from assms obtain r where run: "parse_expr f (new_ast name src) src = Some (Inr (ast, r))"
    by (auto simp add: parse_def split: option.splits sum.splits prod.splits if_splits)
  show ?thesis
  proof (cases r)
    case None
    then show ?thesis
      using emits_expr_None [OF em] run by (simp add: new_ast_def)
  next
    case (Some z)
    then show ?thesis
      using emits_expr_Some [OF em, of "new_ast name src" src ast z] run
      by (simp add: new_ast_def)
  qed
qed

lemma call_is_last:
  assumes "last (postfix_of e) = CALL s"
  shows "\<exists>fn a. e = ECall fn a \<and> s = of_nat (length (postfix_of a))"
  using assms by (cases e) simp_all

lemma nth_root_of_subtree:
  assumes "length pre + length (postfix_of e) = i + 1"
  shows "(pre @ postfix_of e @ post) ! i = last (postfix_of e)"
proof -
  have "i = length pre + (length (postfix_of e) - 1)"
    using assms postfix_of_length_pos [of e] by linarith
  then show ?thesis
    using postfix_of_nonempty [of e]
    by (simp add: nth_append last_conv_nth)
qed

lemma span_of_subtree:
  assumes "nds = pre @ postfix_of e @ post" and "length pre + length (postfix_of e) = i + 1"
  shows "span nds i = Some (length (postfix_of e))"
proof -
  have "i = length pre + length (postfix_of e) - 1"
    using assms(2) by simp
  then show ?thesis
    using span_postfix_of [of pre e post] assms(1) by simp
qed

text \<open>The layout facts for the node sequence of one expression.\<close>

lemma call_layout:
  assumes nds: "nds = postfix_of e0" and small: "small_args e0"
    and i: "i < length nds" and call: "nds ! i = CALL s"
  shows "1 \<le> unat s \<and> unat s + 1 \<le> i
       \<and> span nds (i - 1) = Some (unat s)
       \<and> (\<exists>c. span nds (i - 1 - unat s) = Some c \<and> 1 \<le> c \<and> c + unat s \<le> i
              \<and> span nds i = Some (c + unat s + 1))"
proof -
  obtain pre e post where sub: "[] @ postfix_of e0 @ [] = pre @ postfix_of e @ post"
    and len: "length pre + length (postfix_of e) = i + 1"
    and sm: "small_args e0 \<longrightarrow> small_args e"
    using subtree_at [of "[]" i e0 "[]"] i nds by auto
  have eq: "nds = pre @ postfix_of e @ post"
    using sub nds by simp
  have "last (postfix_of e) = CALL s"
    using nth_root_of_subtree [OF len, of post] eq call by simp
  then obtain fn a where e: "e = ECall fn a" and s: "s = of_nat (length (postfix_of a))"
    using call_is_last by blast
  let ?f = "length (postfix_of fn)"
  let ?a = "length (postfix_of a)"
  have "small_args e" using sm small by simp
  then have "?a \<le> 2147483647" using e by simp
  then have us: "unat s = ?a"
    using s by (simp add: unat_arg_size)
  have f: "0 < ?f" and a: "0 < ?a" by (rule postfix_of_length_pos)+
  have ieq: "i = length pre + ?f + ?a"
    using len e by simp
  have arg: "span nds (i - 1) = Some ?a"
  proof (rule span_of_subtree)
    show "nds = (pre @ postfix_of fn) @ postfix_of a @ (CALL s # post)"
      using eq e s by simp
    show "length (pre @ postfix_of fn) + ?a = i - 1 + 1"
      using ieq a by simp
  qed
  have callee: "span nds (i - 1 - ?a) = Some ?f"
  proof (rule span_of_subtree)
    show "nds = pre @ postfix_of fn @ (postfix_of a @ CALL s # post)"
      using eq e s by simp
    show "length pre + ?f = i - 1 - ?a + 1"
      using ieq f by simp
  qed
  have whole: "span nds i = Some (?f + ?a + 1)"
    using span_of_subtree [OF eq len] e by simp
  have b1: "1 \<le> unat s"
    using us a by linarith
  have b2: "unat s + 1 \<le> i"
    using us f ieq by linarith
  have b3: "span nds (i - 1) = Some (unat s)"
    using arg us by simp
  have b4: "span nds (i - 1 - unat s) = Some ?f"
    using callee us by simp
  have b5: "1 \<le> ?f"
    using f by linarith
  have b6: "?f + unat s \<le> i"
    using us ieq by linarith
  have b7: "span nds i = Some (?f + unat s + 1)"
    using whole us by simp
  from b1 b2 b3 b4 b5 b6 b7 show ?thesis by blast
qed

lemma ranges_nest:
  assumes nds: "nds = postfix_of e0" and ij: "i < j" and j: "j < length nds"
  shows "\<exists>a b. span nds i = Some a \<and> span nds j = Some b
           \<and> 1 \<le> a \<and> a \<le> i + 1 \<and> 1 \<le> b \<and> b \<le> j + 1
           \<and> (i < j + 1 - b \<or> j + 1 - b \<le> i + 1 - a)"
proof -
  obtain prej ej postj where subj: "[] @ postfix_of e0 @ [] = prej @ postfix_of ej @ postj"
    and lenj: "length prej + length (postfix_of ej) = j + 1"
    using subtree_at [of "[]" j e0 "[]"] j nds by auto
  have eqj: "nds = prej @ postfix_of ej @ postj"
    using subj nds by simp
  have spj: "span nds j = Some (length (postfix_of ej))"
    by (rule span_of_subtree [OF eqj lenj])
  have i: "i < length nds" using ij j by simp
  obtain prei ei posti where eqi: "nds = prei @ postfix_of ei @ posti"
    and leni: "length prei + length (postfix_of ei) = i + 1"
    and inside: "length prej \<le> i \<longrightarrow> length prej \<le> length prei"
  proof (cases "length prej \<le> i")
    case True
    have "i < length prej + length (postfix_of ej)"
      using lenj ij by simp
    from subtree_at [OF True this, of postj]
    obtain pre' e' post' where "prej @ postfix_of ej @ postj = pre' @ postfix_of e' @ post'"
      "length pre' + length (postfix_of e') = i + 1" "length prej \<le> length pre'"
      by blast
    then show ?thesis
      using that [of pre' e' post'] eqj by simp
  next
    case False
    obtain pre' e' post' where "[] @ postfix_of e0 @ [] = pre' @ postfix_of e' @ post'"
      "length pre' + length (postfix_of e') = i + 1"
      using subtree_at [of "[]" i e0 "[]"] i nds by auto
    then show ?thesis
      using that [of pre' e' post'] nds False by simp
  qed
  have spi: "span nds i = Some (length (postfix_of ei))"
    by (rule span_of_subtree [OF eqi leni])
  have pi: "0 < length (postfix_of ei)" and pj: "0 < length (postfix_of ej)"
    by (rule postfix_of_length_pos)+
  have ai: "1 \<le> length (postfix_of ei)" "length (postfix_of ei) \<le> i + 1"
    using pi leni by linarith+
  have bj: "1 \<le> length (postfix_of ej)" "length (postfix_of ej) \<le> j + 1"
    using pj lenj by linarith+
  have si: "i + 1 - length (postfix_of ei) = length prei"
    using leni by linarith
  have sj: "j + 1 - length (postfix_of ej) = length prej"
    using lenj by linarith
  have "i < length prej \<or> length prej \<le> length prei"
    using inside by linarith
  then have "i < j + 1 - length (postfix_of ej)
             \<or> j + 1 - length (postfix_of ej) \<le> i + 1 - length (postfix_of ei)"
    using si sj by simp
  with spi spj ai bj show ?thesis by blast
qed

text \<open>
  Claim C1.  The nodes of every \<^verbatim>\<open>Ast\<close> that \<^verbatim>\<open>parse\<close> returns are in post-order.  Either
  there are none, or the whole sequence is one subtree whose root is its last slot.  For
  every \<open>CALL\<close> at index \<open>i\<close> with argument size \<open>s\<close>: the subtree whose root is slot
  \<open>i - 1\<close> has exactly \<open>s\<close> slots (the argument, slots \<open>i - s\<close> to \<open>i - 1\<close>); slot
  \<open>i - 1 - s\<close> is the root of a subtree of \<open>c\<close> slots that fits before the argument (the
  function); and the call's own subtree is these two and the call.  The ranges of any two
  nodes are disjoint or nested, never partly overlapping.
\<close>

theorem C1_postfix_layout:
  assumes "parse f name src = Some (Inr ast)"
  shows "(nodes ast = [] \<or> span (nodes ast) (length (nodes ast) - 1) = Some (length (nodes ast)))
       \<and> (\<forall>i s. i < length (nodes ast) \<longrightarrow> nodes ast ! i = CALL s \<longrightarrow>
             1 \<le> unat s \<and> unat s + 1 \<le> i
             \<and> span (nodes ast) (i - 1) = Some (unat s)
             \<and> (\<exists>c. span (nodes ast) (i - 1 - unat s) = Some c \<and> 1 \<le> c \<and> c + unat s \<le> i
                    \<and> span (nodes ast) i = Some (c + unat s + 1)))
       \<and> (\<forall>i j. i < j \<longrightarrow> j < length (nodes ast) \<longrightarrow>
             (\<exists>a b. span (nodes ast) i = Some a \<and> span (nodes ast) j = Some b
                \<and> 1 \<le> a \<and> a \<le> i + 1 \<and> 1 \<le> b \<and> b \<le> j + 1
                \<and> (i < j + 1 - b \<or> j + 1 - b \<le> i + 1 - a)))"
proof (cases "nodes ast = []")
  case True
  then show ?thesis by simp
next
  case False
  then obtain e0 where small: "small_args e0" and nds: "nodes ast = postfix_of e0"
    using parse_postfix_of [OF assms] by blast
  have whole: "span (nodes ast) (length (nodes ast) - 1) = Some (length (nodes ast))"
    using span_postfix_of [of "[]" e0 "[]"] nds by simp
  have calls: "\<forall>i s. i < length (nodes ast) \<longrightarrow> nodes ast ! i = CALL s \<longrightarrow>
             1 \<le> unat s \<and> unat s + 1 \<le> i
             \<and> span (nodes ast) (i - 1) = Some (unat s)
             \<and> (\<exists>c. span (nodes ast) (i - 1 - unat s) = Some c \<and> 1 \<le> c \<and> c + unat s \<le> i
                    \<and> span (nodes ast) i = Some (c + unat s + 1))"
    using call_layout [OF nds small] by blast
  have nest: "\<forall>i j. i < j \<longrightarrow> j < length (nodes ast) \<longrightarrow>
             (\<exists>a b. span (nodes ast) i = Some a \<and> span (nodes ast) j = Some b
                \<and> 1 \<le> a \<and> a \<le> i + 1 \<and> 1 \<le> b \<and> b \<le> j + 1
                \<and> (i < j + 1 - b \<or> j + 1 - b \<le> i + 1 - a))"
    using ranges_nest [OF nds] by blast
  from whole calls nest show ?thesis by blast
qed

theorem C1_postfix_layout_witness:
  "\<exists>ast. parse 10 ''prog'' ''x (y z)'' = Some (Inr ast)
      \<and> nodes ast = [VAR 23, VAR 24, VAR 25, CALL 1, CALL 3]
      \<and> span (nodes ast) 4 = Some 5
      \<and> span (nodes ast) 3 = Some 3
      \<and> span (nodes ast) 0 = Some 1"
proof -
  have "\<exists>ast. parse 10 ''prog'' ''x (y z)'' = Some (Inr ast)
      \<and> nodes ast = [VAR 23, VAR 24, VAR 25, CALL 1, CALL 3]"
    by (simp add: parse_eval)
  then obtain ast where p: "parse 10 ''prog'' ''x (y z)'' = Some (Inr ast)"
    and n: "nodes ast = [VAR 23, VAR 24, VAR 25, CALL 1, CALL 3]"
    by blast
  have whole: "nodes ast = [] \<or> span (nodes ast) (length (nodes ast) - 1) = Some (length (nodes ast))"
    and calls: "\<forall>i s. i < length (nodes ast) \<longrightarrow> nodes ast ! i = CALL s \<longrightarrow>
             1 \<le> unat s \<and> unat s + 1 \<le> i
             \<and> span (nodes ast) (i - 1) = Some (unat s)
             \<and> (\<exists>c. span (nodes ast) (i - 1 - unat s) = Some c \<and> 1 \<le> c \<and> c + unat s \<le> i
                    \<and> span (nodes ast) i = Some (c + unat s + 1))"
    using C1_postfix_layout [OF p] by blast+
  have w: "span (nodes ast) 4 = Some 5"
    using whole n by (simp add: eval_nat_numeral)
  have "span (nodes ast) (4 - 1) = Some (unat (3 :: u32))
        \<and> (\<exists>c. span (nodes ast) (4 - 1 - unat (3 :: u32)) = Some c \<and> 1 \<le> c \<and> c + unat (3 :: u32) \<le> 4
               \<and> span (nodes ast) 4 = Some (c + unat (3 :: u32) + 1))"
    using calls [rule_format, of 4 3] n by simp
  then have a: "span (nodes ast) 3 = Some 3" and c: "span (nodes ast) 0 = Some 1"
    by auto
  from p n w a c show ?thesis by blast
qed

section \<open>Re-printing round trip\<close>

lemma app_only_small:
  "app_only e \<Longrightarrow> length (postfix_of e) \<le> 2147483647 \<Longrightarrow> small_args e"
  by (induction e) simp_all




























end
